theory Spec2Isabelle
  imports Main "HOL-Library.AList" "HOL-Library.Stream" "HOL-Library.Word"
begin

section \<open>Tile (backend/tile.py)\<close>

text \<open>
  A \<open>Tile\<close> object carries three private booleans. Every grid key owns its own
  object (\<open>_init_grids\<close> creates one per key), so no two keys alias a tile and the
  in-place mutation of the source is a replacement of the value stored at the key.
\<close>

record tile =
  mine :: bool
  revealed :: bool
  flagged :: bool

definition Tile :: tile where
  "Tile = \<lparr>mine = False, revealed = False, flagged = False\<rparr>"

definition place_mine :: "tile \<Rightarrow> tile" where
  "place_mine t = t\<lparr>mine := True\<rparr>"

definition is_mine :: "tile \<Rightarrow> bool" where
  "is_mine t = mine t"

definition mark_as_revealed :: "tile \<Rightarrow> tile" where
  "mark_as_revealed t = t\<lparr>revealed := True\<rparr>"

definition is_revealed :: "tile \<Rightarrow> bool" where
  "is_revealed t = revealed t"

text \<open>\<open>place_flag\<close> prints a warning on a revealed tile and sets the flag all the same;
  the printed line is no part of the state.\<close>

definition place_flag :: "tile \<Rightarrow> tile" where
  "place_flag t = t\<lparr>flagged := True\<rparr>"

definition remove_flag :: "tile \<Rightarrow> tile" where
  "remove_flag t = t\<lparr>flagged := False\<rparr>"

definition is_flagged :: "tile \<Rightarrow> bool" where
  "is_flagged t = flagged t"

section \<open>The random module and the operating system\<close>

text \<open>
  Exceptions of the source: a failed dictionary lookup, \<open>random.randint\<close> on an empty
  range, and the \<open>Exception\<close> with a message raised by the argument check.
\<close>

datatype error = KeyError | ValueError | Exception string

text \<open>
  Python's \<open>random\<close> module is a library, not code of the repository. The state of
  its global generator is the stream of raw draws it will still produce;
  \<open>random.randint a b\<close> consumes one draw and reduces it into \<open>a..b\<close> (both ends
  included), and raises on an empty range. Every sequence of in-range results is
  produced by some stream, so nothing is assumed about the generator beyond the result
  lying in the range.
\<close>

type_synonym rng = "nat stream"

definition randint :: "int \<Rightarrow> int \<Rightarrow> rng \<Rightarrow> error + int \<times> rng" where
  "randint a b s =
     (if b < a then Inl ValueError
      else Inr (a + int (shd s mod nat (b - a + 1)), stl s))"

text \<open>
  What the process takes from outside: the 16 bytes \<open>os.urandom\<close> returns to
  \<open>generate_seed\<close>, and the generator state that \<open>random.seed(None)\<close> installs from
  the system's entropy. \<open>random.seed(n)\<close> for an integer \<open>n\<close> is the library's
  deterministic seeding function, a parameter \<open>twister\<close> of the model.
\<close>

record entropy =
  urandom16 :: "8 word list"
  system_rng :: rng

definition from_bytes_big :: "8 word list \<Rightarrow> int" where
  "from_bytes_big bs = foldl (\<lambda>acc b. acc * 256 + uint b) 0 bs"

definition generate_seed :: "entropy \<Rightarrow> int" where
  "generate_seed e = from_bytes_big (urandom16 e)"

definition random_seed :: "(int \<Rightarrow> rng) \<Rightarrow> entropy \<Rightarrow> int option \<Rightarrow> rng" where
  "random_seed twister e a = (case a of None \<Rightarrow> system_rng e | Some n \<Rightarrow> twister n)"

section \<open>Grid (backend/grid.py)\<close>

text \<open>
  The two dictionaries are association lists in insertion order: \<open>map_of\<close> is the
  lookup (\<open>None\<close> is Python's \<open>KeyError\<close>), \<open>AList.update\<close> the item assignment.
\<close>

type_synonym pos = "int \<times> int"

record grid =
  grid_height :: int
  grid_width :: int
  mine_count :: int
  tile_grid :: "(pos \<times> tile) list"
  mine_count_grid :: "(pos \<times> int) list"
  seed :: int

definition ROTATIONS :: "(int \<times> int) list" where
  "ROTATIONS = [(-1, -1), (-1, 0), (-1, 1),
                (0, -1),           (0, 1),
                (1, -1),  (1, 0),  (1, 1)]"

text \<open>\<open>range(n)\<close>, empty for \<open>n \<le> 0\<close>.\<close>

definition range_py :: "int \<Rightarrow> int list" where
  "range_py n = [0..n - 1]"

text \<open>The keys visited by \<open>for row in range(height): for col in range(width)\<close>, in order.\<close>

definition grid_positions :: "int \<Rightarrow> int \<Rightarrow> pos list" where
  "grid_positions h w = concat (map (\<lambda>row. map (\<lambda>col. (row, col)) (range_py w)) (range_py h))"

definition check_valid_grid_arguments :: "int \<Rightarrow> int \<Rightarrow> int \<Rightarrow> error + unit" where
  "check_valid_grid_arguments h w m =
     (let grid_size = h * w in
      if h < 5 \<or> w < 5 then Inl (Exception ''Invalid grid size - too small'')
      else if m < 1 then Inl (Exception ''Invalid grid mine count - at least 1 mine required'')
      else if m > grid_size
        then Inl (Exception ''Invalid grid mine count - can't have more tiles than grid size!'')
      else Inr ())"

definition get_area_size :: "grid \<Rightarrow> int" where
  "get_area_size g = grid_height g * grid_width g"

definition get_tile :: "grid \<Rightarrow> int \<Rightarrow> int \<Rightarrow> error + tile" where
  "get_tile g row col =
     (case map_of (tile_grid g) (row, col) of None \<Rightarrow> Inl KeyError | Some t \<Rightarrow> Inr t)"

definition get_surrounding_mine_count :: "grid \<Rightarrow> int \<Rightarrow> int \<Rightarrow> error + int" where
  "get_surrounding_mine_count g row col =
     (case map_of (mine_count_grid g) (row, col) of None \<Rightarrow> Inl KeyError | Some c \<Rightarrow> Inr c)"

text \<open>
  The two classifiers raise \<open>KeyError\<close> on a missing key, which is all they can raise:
  their result is an option, \<open>None\<close> for the exception. \<open>is_tile_empty\<close> reads the count
  only for a tile without a mine (\<open>and\<close> short-circuits).
\<close>

definition is_tile_a_indicator :: "grid \<Rightarrow> pos \<Rightarrow> bool option" where
  "is_tile_a_indicator g p =
     (case map_of (mine_count_grid g) p of None \<Rightarrow> None | Some c \<Rightarrow> Some (c > 0))"

definition is_tile_empty :: "grid \<Rightarrow> pos \<Rightarrow> bool option" where
  "is_tile_empty g p =
     (case map_of (tile_grid g) p of
        None \<Rightarrow> None
      | Some t \<Rightarrow>
          if is_mine t then Some False
          else (case is_tile_a_indicator g p of None \<Rightarrow> None | Some i \<Rightarrow> Some (\<not> i)))"

subsection \<open>Setting the grid up\<close>

definition init_grids :: "grid \<Rightarrow> grid" where
  "init_grids g =
     fold (\<lambda>p g'. g'\<lparr>tile_grid := AList.update p Tile (tile_grid g'),
                     mine_count_grid := AList.update p 0 (mine_count_grid g')\<rparr>)
       (grid_positions (grid_height g) (grid_width g)) g"

definition generate_rnd_position :: "grid \<Rightarrow> rng \<Rightarrow> error + pos \<times> rng" where
  "generate_rnd_position g s =
     (case randint 0 (grid_height g - 1) s of
        Inl e \<Rightarrow> Inl e
      | Inr (row, s1) \<Rightarrow>
          (case randint 0 (grid_width g - 1) s1 of
             Inl e \<Rightarrow> Inl e
           | Inr (col, s2) \<Rightarrow> Inr ((row, col), s2)))"

text \<open>
  The body of the \<open>for\<close> loop of \<open>_place_random_mines\<close>: \<open>while True\<close>, draw a position
  and leave the loop once a tile without a mine has received one. The loop has no bound;
  a run that never leaves it is the value \<open>None\<close>.
\<close>

partial_function (option) place_one_mine :: "grid \<Rightarrow> rng \<Rightarrow> (error + grid \<times> rng) option" where
  "place_one_mine g s =
     (case generate_rnd_position g s of
        Inl e \<Rightarrow> Some (Inl e)
      | Inr (p, s') \<Rightarrow>
          (case map_of (tile_grid g) p of
             None \<Rightarrow> Some (Inl KeyError)
           | Some t \<Rightarrow>
               if \<not> is_mine t
               then Some (Inr (g\<lparr>tile_grid := AList.update p (place_mine t) (tile_grid g)\<rparr>, s'))
               else place_one_mine g s'))"

primrec place_mines :: "nat \<Rightarrow> grid \<Rightarrow> rng \<Rightarrow> (error + grid \<times> rng) option" where
  "place_mines 0 g s = Some (Inr (g, s))"
| "place_mines (Suc n) g s =
     (case place_one_mine g s of
        None \<Rightarrow> None
      | Some (Inl e) \<Rightarrow> Some (Inl e)
      | Some (Inr (g', s')) \<Rightarrow> place_mines n g' s')"

definition place_random_mines :: "grid \<Rightarrow> rng \<Rightarrow> (error + grid \<times> rng) option" where
  "place_random_mines g s = place_mines (nat (mine_count g)) g s"

definition find_surrounding_mine_count :: "grid \<Rightarrow> int \<Rightarrow> int \<Rightarrow> int" where
  "find_surrounding_mine_count g row col =
     fold (\<lambda>relative_location count.
             (case map_of (tile_grid g) (row + fst relative_location, col + snd relative_location) of
                None \<Rightarrow> count
              | Some t \<Rightarrow> if is_mine t then count + 1 else count))
       ROTATIONS 0"

fun generate_indicators_loop :: "pos list \<Rightarrow> grid \<Rightarrow> error + grid" where
  "generate_indicators_loop [] g = Inr g"
| "generate_indicators_loop ((row, col) # ps) g =
     (case map_of (tile_grid g) (row, col) of
        None \<Rightarrow> Inl KeyError
      | Some t \<Rightarrow>
          if \<not> is_mine t
          then generate_indicators_loop ps
                 (g\<lparr>mine_count_grid :=
                      AList.update (row, col) (find_surrounding_mine_count g row col)
                        (mine_count_grid g)\<rparr>)
          else generate_indicators_loop ps g)"

definition generate_indicators :: "grid \<Rightarrow> error + grid" where
  "generate_indicators g =
     generate_indicators_loop (grid_positions (grid_height g) (grid_width g)) g"

definition set_up_grid :: "grid \<Rightarrow> rng \<Rightarrow> (error + grid \<times> rng) option" where
  "set_up_grid g s =
     (case place_random_mines (init_grids g) s of
        None \<Rightarrow> None
      | Some (Inl e) \<Rightarrow> Some (Inl e)
      | Some (Inr (g', s')) \<Rightarrow>
          (case generate_indicators g' of
             Inl e \<Rightarrow> Some (Inl e)
           | Inr g'' \<Rightarrow> Some (Inr (g'', s'))))"

text \<open>
  \<open>Grid.__init__\<close>. The recorded seed is the argument, or a generated one when the
  argument is \<open>None\<close>; the generator is seeded with the argument, \<open>random.seed(seed)\<close>.
\<close>

definition Grid :: "(int \<Rightarrow> rng) \<Rightarrow> entropy \<Rightarrow> int \<Rightarrow> int \<Rightarrow> int \<Rightarrow> int option
    \<Rightarrow> (error + grid \<times> rng) option" where
  "Grid twister e h w m seed_arg =
     (case check_valid_grid_arguments h w m of
        Inl err \<Rightarrow> Some (Inl err)
      | Inr _ \<Rightarrow>
          set_up_grid
            \<lparr>grid_height = h, grid_width = w, mine_count = m,
             tile_grid = [], mine_count_grid = [],
             seed = (case seed_arg of Some n \<Rightarrow> n | None \<Rightarrow> generate_seed e)\<rparr>
            (random_seed twister e seed_arg))"

definition restart_grid :: "grid \<Rightarrow> rng \<Rightarrow> (error + grid \<times> rng) option" where
  "restart_grid g s = set_up_grid (g\<lparr>tile_grid := [], mine_count_grid := []\<rparr>) s"

subsection \<open>Opening a tile\<close>

text \<open>
  One turn of the \<open>for relative_location in Grid.ROTATIONS\<close> loop of \<open>rotate_algorithm\<close>
  on the triple of the grid and the two lists. A \<open>KeyError\<close> of the turn is caught
  inside the loop, before anything was changed, and the loop goes on.
\<close>

definition reveal_at :: "pos \<Rightarrow> tile \<Rightarrow> grid \<Rightarrow> grid" where
  "reveal_at p t g = g\<lparr>tile_grid := AList.update p (mark_as_revealed t) (tile_grid g)\<rparr>"

definition rotate_step :: "pos \<Rightarrow> int \<times> int \<Rightarrow> grid \<times> pos list \<times> pos list
    \<Rightarrow> grid \<times> pos list \<times> pos list" where
  "rotate_step cur relative_location st =
     (case st of (g, to_check, to_not_check) \<Rightarrow>
        let location = (fst cur + fst relative_location, snd cur + snd relative_location) in
        (case is_tile_empty g location of
           None \<Rightarrow> st
         | Some tile_empty \<Rightarrow>
             (case map_of (tile_grid g) location of
                None \<Rightarrow> st
              | Some t \<Rightarrow>
                  if tile_empty \<and> \<not> is_revealed t \<and> \<not> is_flagged t
                  then (if location \<notin> set to_check
                        then (reveal_at location t g, to_check @ [location], to_not_check)
                        else st)
                  else (case is_tile_a_indicator g location of
                          None \<Rightarrow> st
                        | Some indicator \<Rightarrow>
                            if indicator \<and> \<not> is_revealed t \<and> \<not> is_flagged t
                            then (if location \<notin> set to_not_check
                                  then (reveal_at location t g, to_check,
                                        to_not_check @ [location])
                                  else st)
                            else st))))"

definition rotate_algorithm :: "pos \<Rightarrow> grid \<times> pos list \<times> pos list
    \<Rightarrow> grid \<times> pos list \<times> pos list" where
  "rotate_algorithm cur st = fold (rotate_step cur) ROTATIONS st"

text \<open>
  \<open>for location in to_check\<close> walks the list by index while \<open>rotate_algorithm\<close> appends
  to it: the loop ends when the index reaches the current length.
\<close>

function open_loop :: "nat \<Rightarrow> grid \<times> pos list \<times> pos list \<Rightarrow> grid \<times> pos list \<times> pos list" where
  "open_loop i (g, to_check, to_not_check) =
     (if i < length to_check
      then open_loop (Suc i) (rotate_algorithm (to_check ! i) (g, to_check, to_not_check))
      else (g, to_check, to_not_check))"
  by pat_completeness auto

definition open_tile :: "grid \<Rightarrow> int \<Rightarrow> int \<Rightarrow> error + grid \<times> pos list" where
  "open_tile g row col =
     (case map_of (tile_grid g) (row, col) of
        None \<Rightarrow> Inl KeyError
      | Some curr_tile \<Rightarrow>
          if is_mine curr_tile \<or> is_revealed curr_tile then Inr (g, [(row, col)])
          else (case open_loop 0 (reveal_at (row, col) curr_tile g, [(row, col)], []) of
                  (g', to_check, to_not_check) \<Rightarrow> Inr (g', to_check @ to_not_check)))"

subsection \<open>Winning\<close>

definition check_win :: "grid \<Rightarrow> bool" where
  "check_win g =
     list_all (\<lambda>t. (is_flagged t \<and> is_mine t) \<or> (is_revealed t \<and> \<not> is_mine t))
       (map snd (tile_grid g))"

subsection \<open>The game as the console drives it\<close>

text \<open>
  The console calls \<open>open_tile\<close>, \<open>get_tile(row, col).place_flag()\<close> and
  \<open>check_win\<close> (which only reads the grid); \<open>remove_flag\<close> and \<open>restart_grid\<close> are the
  remaining mutators of the interface. An exception of an action leaves the run (nothing catches it), and a
  restart that never returns is \<open>None\<close>.
\<close>

datatype action = OpenTile int int | PlaceFlag int int | RemoveFlag int int | CheckWin | Restart

definition apply_action :: "action \<Rightarrow> grid \<times> rng \<Rightarrow> (error + grid \<times> rng) option" where
  "apply_action a st =
     (case st of (g, s) \<Rightarrow>
        (case a of
           OpenTile row col \<Rightarrow>
             (case open_tile g row col of
                Inl e \<Rightarrow> Some (Inl e)
              | Inr (g', opened) \<Rightarrow> Some (Inr (g', s)))
         | PlaceFlag row col \<Rightarrow>
             (case get_tile g row col of
                Inl e \<Rightarrow> Some (Inl e)
              | Inr t \<Rightarrow>
                  Some (Inr (g\<lparr>tile_grid := AList.update (row, col) (place_flag t) (tile_grid g)\<rparr>, s)))
         | RemoveFlag row col \<Rightarrow>
             (case get_tile g row col of
                Inl e \<Rightarrow> Some (Inl e)
              | Inr t \<Rightarrow>
                  Some (Inr (g\<lparr>tile_grid := AList.update (row, col) (remove_flag t) (tile_grid g)\<rparr>, s)))
         | CheckWin \<Rightarrow> Some (Inr (g, s))
         | Restart \<Rightarrow> restart_grid g s))"

fun run_actions :: "action list \<Rightarrow> grid \<times> rng \<Rightarrow> (error + grid \<times> rng) option" where
  "run_actions [] st = Some (Inr st)"
| "run_actions (a # as) st =
     (case apply_action a st of
        None \<Rightarrow> None
      | Some (Inl e) \<Rightarrow> Some (Inl e)
      | Some (Inr st') \<Rightarrow> run_actions as st')"

section \<open>Notions of the verification\<close>

subsection \<open>Measures and invariants of open_tile\<close>

text \<open>The number of entries of the tile dictionary that are not revealed, and the
  measure that decreases along the worklist loop of \<open>open_tile\<close>.\<close>

definition unrevealed_count :: "grid \<Rightarrow> nat" where
  "unrevealed_count g = length (filter (\<lambda>kv. \<not> revealed (snd kv)) (tile_grid g))"

definition open_measure :: "grid \<times> pos list \<times> pos list \<Rightarrow> nat" where
  "open_measure st = 2 * unrevealed_count (fst st) + length (fst (snd st))"

text \<open>
  What a fill may do to a tile: the mine and the flag stay, a revealed tile stays
  revealed, and a tile that becomes revealed had no flag. A grid after a fill differs
  from the grid before in its tiles only, key by key in that relation.
\<close>

definition tile_opened :: "tile \<Rightarrow> tile \<Rightarrow> bool" where
  "tile_opened t t' \<longleftrightarrow>
     is_mine t' = is_mine t \<and> is_flagged t' = is_flagged t \<and>
     (is_revealed t \<longrightarrow> is_revealed t') \<and>
     (is_revealed t' \<and> \<not> is_revealed t \<longrightarrow> \<not> is_flagged t)"

definition grid_opened :: "grid \<Rightarrow> grid \<Rightarrow> bool" where
  "grid_opened g g' \<longleftrightarrow>
     g' = g\<lparr>tile_grid := tile_grid g'\<rparr> \<and>
     map fst (tile_grid g') = map fst (tile_grid g) \<and>
     (\<forall>p. rel_option tile_opened (map_of (tile_grid g) p) (map_of (tile_grid g') p))"

text \<open>No tile with a mine is revealed, and none counts as an indicator.\<close>

definition mines_hidden :: "grid \<Rightarrow> bool" where
  "mines_hidden g \<longleftrightarrow>
     (\<forall>p t. map_of (tile_grid g) p = Some t \<and> is_mine t \<longrightarrow>
        \<not> is_revealed t \<and> is_tile_a_indicator g p \<noteq> Some True)"

text \<open>
  The state of the worklist loop respects the wall, relative to the clicked position
  and the grid in which the loop started: every position of \<open>to_check\<close> other than the
  clicked one is an empty tile, every position of either list other than the clicked
  one lies next to a position of \<open>to_check\<close>, and every tile revealed since the start is
  on one of the lists.
\<close>

definition next_to :: "pos \<Rightarrow> pos \<Rightarrow> bool" where
  "next_to e q \<longleftrightarrow> (\<exists>d \<in> set ROTATIONS. q = (fst e + fst d, snd e + snd d))"

definition wall_inv :: "pos \<Rightarrow> grid \<Rightarrow> grid \<times> pos list \<times> pos list \<Rightarrow> bool" where
  "wall_inv clicked g1 st \<longleftrightarrow>
     (case st of (g, to_check, to_not_check) \<Rightarrow>
        grid_opened g1 g \<and>
        (\<forall>q \<in> set to_check. q = clicked \<or> is_tile_empty g1 q = Some True) \<and>
        (\<forall>q \<in> set to_check \<union> set to_not_check.
            q = clicked \<or> (\<exists>e \<in> set to_check. next_to e q)) \<and>
        (\<forall>q t t1. map_of (tile_grid g) q = Some t \<and> is_revealed t \<and>
            map_of (tile_grid g1) q = Some t1 \<and> \<not> is_revealed t1
            \<longrightarrow> q \<in> set to_check \<union> set to_not_check))"

subsection \<open>Invariants of the set-up\<close>

text \<open>
  A dense grid has exactly the keys of the two nested \<open>range\<close> loops, in their order, in
  both dictionaries. One pass of the placement loop turns one tile without a mine into
  a mine. Before the indicators are computed no tile is revealed and every count is 0.
\<close>

definition dense :: "grid \<Rightarrow> bool" where
  "dense g \<longleftrightarrow>
     map fst (tile_grid g) = grid_positions (grid_height g) (grid_width g) \<and>
     map fst (mine_count_grid g) = grid_positions (grid_height g) (grid_width g)"

definition mine_placed :: "grid \<Rightarrow> grid \<Rightarrow> bool" where
  "mine_placed g g' \<longleftrightarrow>
     (\<exists>p t. map_of (tile_grid g) p = Some t \<and> \<not> is_mine t \<and>
            g' = g\<lparr>tile_grid := AList.update p (place_mine t) (tile_grid g)\<rparr>)"

definition mine_total :: "grid \<Rightarrow> nat" where
  "mine_total g = length (filter (\<lambda>kv. is_mine (snd kv)) (tile_grid g))"

definition unopened :: "grid \<Rightarrow> bool" where
  "unopened g \<longleftrightarrow>
     (\<forall>p t. map_of (tile_grid g) p = Some t \<longrightarrow>
        \<not> is_revealed t \<and> map_of (mine_count_grid g) p = Some 0)"

definition set_up_inv :: "grid \<Rightarrow> grid \<Rightarrow> bool" where
  "set_up_inv g0 g \<longleftrightarrow>
     grid_height g = grid_height g0 \<and> grid_width g = grid_width g0 \<and>
     mine_count g = mine_count g0 \<and> seed g = seed g0 \<and> dense g \<and> unopened g"

text \<open>
  The position that the \<open>k\<close>-th call of \<open>_generate_rnd_position\<close> returns from a
  generator state, and a generator that is fair to a grid: every cell of the grid is
  drawn again after any number of calls. A uniform random source is fair with
  probability one; the rejection loop of the placement relies on it.
\<close>

definition drawn_position :: "int \<Rightarrow> int \<Rightarrow> rng \<Rightarrow> nat \<Rightarrow> pos" where
  "drawn_position h w s k = (int (s !! (2 * k) mod nat h), int (s !! (2 * k + 1) mod nat w))"

definition fair_rng :: "int \<Rightarrow> int \<Rightarrow> rng \<Rightarrow> bool" where
  "fair_rng h w s \<longleftrightarrow>
     (\<forall>p \<in> set (grid_positions h w). \<forall>n. \<exists>k \<ge> n. drawn_position h w s k = p)"

subsection \<open>The neighbourhood of a tile\<close>

text \<open>
  The neighbourhood in the words of the specification: the positions whose row and
  column each differ by at most one from the tile's, the tile itself excluded; and
  those of them that lie inside the grid and carry a mine.
\<close>

definition neighbours :: "pos \<Rightarrow> pos set" where
  "neighbours p = {q. q \<noteq> p \<and> \<bar>fst q - fst p\<bar> \<le> 1 \<and> \<bar>snd q - snd p\<bar> \<le> 1}"

definition mined_neighbours :: "grid \<Rightarrow> pos \<Rightarrow> pos set" where
  "mined_neighbours g p =
     {q \<in> neighbours p.
        0 \<le> fst q \<and> fst q < grid_height g \<and> 0 \<le> snd q \<and> snd q < grid_width g \<and>
        (\<exists>t. map_of (tile_grid g) q = Some t \<and> is_mine t)}"

subsection \<open>Concrete generators and grids\<close>

text \<open>
  Two stand-ins for the library's seeding function and the system's entropy: a generator
  that counts up from its seed, and a generator that sweeps the grid of width \<open>w\<close> row
  by row, over and over (its draws number \<open>2k\<close> and \<open>2k + 1\<close> are the row and the column
  of cell number \<open>k\<close>).
\<close>

definition counting_twister :: "int \<Rightarrow> rng" where
  "counting_twister n = fromN (nat n)"

definition sweep_rng :: "nat \<Rightarrow> rng" where
  "sweep_rng w = smap (\<lambda>i. if even i then i div 2 div w else i div 2 mod w) nats"

definition no_entropy :: entropy where
  "no_entropy = \<lparr>urandom16 = [], system_rng = sconst 0\<rparr>"

definition example_entropy :: entropy where
  "example_entropy =
     \<lparr>urandom16 = [0, 0, 0, 0, 0, 0, 0, 0, 0, 0, 0, 0, 0, 0, 0, 4], system_rng = fromN 0\<rparr>"

text \<open>
  The grid that \<open>Grid(5, 5, 1, seed=0)\<close> builds with the counting generator: one mine at
  \<open>(0, 1)\<close>. The same grid with a flag on the corner \<open>(0, 0)\<close>, and the grid after the mine
  and the corner were flagged and \<open>(0, 0)\<close> and \<open>(2, 2)\<close> opened.
\<close>

definition example_grid :: grid where
  "example_grid =
     \<lparr>grid_height = 5, grid_width = 5, mine_count = 1,
      tile_grid = map (\<lambda>p. (p, Tile\<lparr>mine := (p = (0, 1))\<rparr>)) (grid_positions 5 5),
      mine_count_grid =
        map (\<lambda>p. (p, if p \<in> {(0, 0), (0, 2), (1, 0), (1, 1), (1, 2)} then 1 else 0))
          (grid_positions 5 5),
      seed = 0\<rparr>"

definition flagged_grid :: grid where
  "flagged_grid =
     example_grid\<lparr>tile_grid := AList.update (0, 0) (place_flag Tile) (tile_grid example_grid)\<rparr>"

definition won_grid :: grid where
  "won_grid =
     example_grid\<lparr>tile_grid :=
       map (\<lambda>p. (p, if p = (0, 1) then \<lparr>mine = True, revealed = False, flagged = True\<rparr>
                      else \<lparr>mine = False, revealed = True, flagged = (p = (0, 0))\<rparr>))
         (grid_positions 5 5)\<rparr>"

text \<open>The positions of the revealed tiles and of the mines, in dictionary order.\<close>

definition revealed_positions :: "grid \<Rightarrow> pos list" where
  "revealed_positions g = map fst (filter (\<lambda>kv. is_revealed (snd kv)) (tile_grid g))"

definition mine_positions :: "grid \<Rightarrow> pos list" where
  "mine_positions g = map fst (filter (\<lambda>kv. is_mine (snd kv)) (tile_grid g))"

section \<open>The worklist loop terminates\<close>

lemma filter_update_revealed:
  "map_of al p = Some t \<Longrightarrow> \<not> revealed t \<Longrightarrow>
   Suc (length (filter (\<lambda>kv. \<not> revealed (snd kv)) (AList.update p (mark_as_revealed t) al)))
     = length (filter (\<lambda>kv. \<not> revealed (snd kv)) al)"
  by (induction al) (auto simp: mark_as_revealed_def split: if_splits)

lemma unrevealed_count_reveal_at:
  "map_of (tile_grid g) p = Some t \<Longrightarrow> \<not> revealed t \<Longrightarrow>
   Suc (unrevealed_count (reveal_at p t g)) = unrevealed_count g"
  by (simp add: unrevealed_count_def reveal_at_def filter_update_revealed)

lemma rotate_step_cases:
  assumes "rotate_step cur d (g, tc, tnc) = st'"
  obtains (skip) "st' = (g, tc, tnc)"
  | (empty_tile) t where "map_of (tile_grid g) (fst cur + fst d, snd cur + snd d) = Some t"
      "\<not> revealed t" "\<not> flagged t"
      "is_tile_empty g (fst cur + fst d, snd cur + snd d) = Some True"
      "(fst cur + fst d, snd cur + snd d) \<notin> set tc"
      "st' = (reveal_at (fst cur + fst d, snd cur + snd d) t g,
              tc @ [(fst cur + fst d, snd cur + snd d)], tnc)"
  | (indicator) t where "map_of (tile_grid g) (fst cur + fst d, snd cur + snd d) = Some t"
      "\<not> revealed t" "\<not> flagged t"
      "is_tile_a_indicator g (fst cur + fst d, snd cur + snd d) = Some True"
      "(fst cur + fst d, snd cur + snd d) \<notin> set tnc"
      "st' = (reveal_at (fst cur + fst d, snd cur + snd d) t g, tc,
              tnc @ [(fst cur + fst d, snd cur + snd d)])"
  using assms unfolding rotate_step_def Let_def is_revealed_def is_flagged_def
  by (auto split: option.splits if_splits)

lemma rotate_step_measure: "open_measure (rotate_step cur d st) \<le> open_measure st"
proof -
  obtain g tc tnc where st: "st = (g, tc, tnc)" by (cases st)
  have "rotate_step cur d (g, tc, tnc) = rotate_step cur d st" by (simp add: st)
  then show ?thesis
  proof (cases rule: rotate_step_cases)
    case skip then show ?thesis by (simp add: st)
  next
    case (empty_tile t)
    then show ?thesis
      using unrevealed_count_reveal_at[of g "(fst cur + fst d, snd cur + snd d)" t]
      by (simp add: st open_measure_def)
  next
    case (indicator t)
    then show ?thesis
      using unrevealed_count_reveal_at[of g "(fst cur + fst d, snd cur + snd d)" t]
      by (simp add: st open_measure_def)
  qed
qed

lemma rotate_algorithm_measure: "open_measure (rotate_algorithm cur st) \<le> open_measure st"
proof -
  have "open_measure (fold (rotate_step cur) ds st) \<le> open_measure st" for ds
  proof (induction ds arbitrary: st)
    case Nil show ?case by simp
  next
    case (Cons d ds)
    have "open_measure (fold (rotate_step cur) ds (rotate_step cur d st)) \<le> open_measure (rotate_step cur d st)"
      by (rule Cons.IH)
    also have "\<dots> \<le> open_measure st" by (rule rotate_step_measure)
    finally show ?case by simp
  qed
  then show ?thesis by (simp add: rotate_algorithm_def)
qed

termination open_loop
proof (relation "measure (\<lambda>(i, st). open_measure st - i)")
  show "wf (measure (\<lambda>(i, st). open_measure st - i))" by simp
next
  fix i :: nat and g :: grid and to_check to_not_check :: "pos list"
  assume lt: "i < length to_check"
  have "open_measure (rotate_algorithm (to_check ! i) (g, to_check, to_not_check))
          \<le> open_measure (g, to_check, to_not_check)"
    by (rule rotate_algorithm_measure)
  moreover have "i < open_measure (g, to_check, to_not_check)"
    using lt by (simp add: open_measure_def)
  ultimately show "((Suc i, rotate_algorithm (to_check ! i) (g, to_check, to_not_check)),
                    (i, g, to_check, to_not_check)) \<in> measure (\<lambda>(i, st). open_measure st - i)"
    by simp
qed

declare open_loop.simps [simp del]

lemma rotate_step_to_check_mono:
  "rotate_step cur d (g, tc, tnc) = (g', tc', tnc') \<Longrightarrow> set tc \<subseteq> set tc'"
  by (erule rotate_step_cases) auto

lemma rotate_algorithm_preserves:
  assumes step: "\<And>d g tc tnc. P (g, tc, tnc) \<Longrightarrow> cur \<in> set tc \<Longrightarrow> P (rotate_step cur d (g, tc, tnc))"
    and init: "P st" and cur: "cur \<in> set (fst (snd st))"
  shows "P (rotate_algorithm cur st) \<and> cur \<in> set (fst (snd (rotate_algorithm cur st)))"
proof -
  have "P (fold (rotate_step cur) ds st) \<and> cur \<in> set (fst (snd (fold (rotate_step cur) ds st)))" for ds
    using init cur
  proof (induction ds arbitrary: st)
    case Nil then show ?case by simp
  next
    case (Cons d ds)
    obtain g tc tnc where st: "st = (g, tc, tnc)" by (cases st)
    obtain g' tc' tnc' where st': "rotate_step cur d (g, tc, tnc) = (g', tc', tnc')"
      by (cases "rotate_step cur d (g, tc, tnc)")
    have "P (rotate_step cur d st)" using step[of g tc tnc d] Cons.prems by (simp add: st)
    moreover have "cur \<in> set (fst (snd (rotate_step cur d st)))"
      using rotate_step_to_check_mono[OF st'] Cons.prems(2) by (auto simp: st st')
    ultimately show ?case using Cons.IH[of "rotate_step cur d st"] by simp
  qed
  then show ?thesis by (simp add: rotate_algorithm_def)
qed

lemma open_loop_preserves:
  assumes step: "\<And>cur d g tc tnc. P (g, tc, tnc) \<Longrightarrow> cur \<in> set tc \<Longrightarrow> P (rotate_step cur d (g, tc, tnc))"
    and init: "P st"
  shows "P (open_loop i st)"
  using init
proof (induction i st rule: open_loop.induct)
  case (1 i g to_check to_not_check)
  show ?case
  proof (cases "i < length to_check")
    case True
    have "P (rotate_algorithm (to_check ! i) (g, to_check, to_not_check))"
      using rotate_algorithm_preserves[of P "to_check ! i" "(g, to_check, to_not_check)"] step "1.prems" True
      by simp
    then show ?thesis using "1.IH"[OF True] True by (simp add: open_loop.simps)
  next
    case False
    then show ?thesis using "1.prems" by (simp add: open_loop.simps)
  qed
qed

lemma tile_opened_refl: "tile_opened t t"
  by (simp add: tile_opened_def)

lemma tile_opened_trans: "tile_opened t t' \<Longrightarrow> tile_opened t' t'' \<Longrightarrow> tile_opened t t''"
  by (auto simp: tile_opened_def)

lemma grid_opened_refl: "grid_opened g g"
  by (simp add: grid_opened_def option.rel_refl tile_opened_refl)

lemma grid_opened_tile:
  "grid_opened g g' \<Longrightarrow> rel_option tile_opened (map_of (tile_grid g) p) (map_of (tile_grid g') p)"
  by (cases p) (simp add: grid_opened_def)

lemma grid_opened_trans:
  assumes "grid_opened g g'" "grid_opened g' g''"
  shows "grid_opened g g''"
proof -
  have "rel_option tile_opened (map_of (tile_grid g) p) (map_of (tile_grid g'') p)" for p
  proof -
    have a: "rel_option tile_opened (map_of (tile_grid g) p) (map_of (tile_grid g') p)"
      and b: "rel_option tile_opened (map_of (tile_grid g') p) (map_of (tile_grid g'') p)"
      using assms by (simp_all add: grid_opened_tile)
    show ?thesis
      using a b by (cases "map_of (tile_grid g) p"; cases "map_of (tile_grid g') p";
          cases "map_of (tile_grid g'') p") (auto intro: tile_opened_trans)
  qed
  moreover have "g'' = g\<lparr>tile_grid := tile_grid g''\<rparr>"
  proof -
    have first: "g' = g\<lparr>tile_grid := tile_grid g'\<rparr>"
      and second: "g'' = g'\<lparr>tile_grid := tile_grid g''\<rparr>"
      using assms by (simp_all add: grid_opened_def)
    have "g'\<lparr>tile_grid := tile_grid g''\<rparr>
          = (g\<lparr>tile_grid := tile_grid g'\<rparr>)\<lparr>tile_grid := tile_grid g''\<rparr>"
      using first by (rule arg_cong[where f = "\<lambda>x. x\<lparr>tile_grid := tile_grid g''\<rparr>"])
    also have "\<dots> = g\<lparr>tile_grid := tile_grid g''\<rparr>" by simp
    finally show ?thesis using second by simp
  qed
  moreover have "map fst (tile_grid g'') = map fst (tile_grid g)"
    using assms by (simp add: grid_opened_def)
  ultimately show ?thesis by (simp add: grid_opened_def)
qed

lemma update_keys_present:
  "map_of al p = Some v \<Longrightarrow> map fst (AList.update p v' al) = map fst al"
  by (induction al) (auto split: if_splits)

lemma grid_opened_reveal_at:
  assumes "map_of (tile_grid g) p = Some t" "\<not> is_flagged t"
  shows "grid_opened g (reveal_at p t g)"
proof -
  have "rel_option tile_opened (map_of (tile_grid g) q) (map_of (tile_grid (reveal_at p t g)) q)" for q
    using assms
    by (cases "q = p")
      (auto simp: reveal_at_def update_conv' tile_opened_def mark_as_revealed_def
        is_mine_def is_flagged_def is_revealed_def option.rel_refl)
  then show ?thesis
    using assms(1) by (simp add: grid_opened_def reveal_at_def update_keys_present)
qed

lemma rotate_step_grid_opened:
  assumes "grid_opened g0 g"
  shows "grid_opened g0 (fst (rotate_step cur d (g, tc, tnc)))"
proof -
  have "rotate_step cur d (g, tc, tnc) = rotate_step cur d (g, tc, tnc)" ..
  then show ?thesis
  proof (cases rule: rotate_step_cases)
    case skip then show ?thesis using assms by simp
  next
    case (empty_tile t)
    then show ?thesis
      using grid_opened_trans[OF assms grid_opened_reveal_at[of g _ t]]
      by (simp add: is_flagged_def)
  next
    case (indicator t)
    then show ?thesis
      using grid_opened_trans[OF assms grid_opened_reveal_at[of g _ t]]
      by (simp add: is_flagged_def)
  qed
qed

lemma open_loop_grid_opened:
  assumes "grid_opened g0 g"
  shows "grid_opened g0 (fst (open_loop i (g, tc, tnc)))"
proof -
  have "grid_opened g0 (fst (open_loop i st))" if "grid_opened g0 (fst st)" for st
    by (rule open_loop_preserves[where P = "\<lambda>st. grid_opened g0 (fst st)"])
      (use that in \<open>simp_all add: rotate_step_grid_opened\<close>)
  from this[of "(g, tc, tnc)"] assms show ?thesis by simp
qed

lemma mines_hidden_reveal_at:
  assumes "mines_hidden g" "map_of (tile_grid g) p = Some t" "\<not> is_mine t"
  shows "mines_hidden (reveal_at p t g)"
  using assms unfolding mines_hidden_def reveal_at_def is_tile_a_indicator_def
  by (auto simp: update_conv' mark_as_revealed_def is_mine_def is_revealed_def split: if_splits)

lemma is_tile_empty_not_mine:
  "is_tile_empty g p = Some True \<Longrightarrow> map_of (tile_grid g) p = Some t \<Longrightarrow> \<not> is_mine t"
  by (auto simp: is_tile_empty_def split: option.splits if_splits)

lemma rotate_step_mines_hidden:
  assumes "mines_hidden g"
  shows "mines_hidden (fst (rotate_step cur d (g, tc, tnc)))"
proof -
  have "rotate_step cur d (g, tc, tnc) = rotate_step cur d (g, tc, tnc)" ..
  then show ?thesis
  proof (cases rule: rotate_step_cases)
    case skip then show ?thesis using assms by simp
  next
    case (empty_tile t)
    then show ?thesis
      using mines_hidden_reveal_at[OF assms, of _ t] is_tile_empty_not_mine[of g _ t]
      by simp
  next
    case (indicator t)
    then have "\<not> is_mine t" using assms by (auto simp: mines_hidden_def)
    then show ?thesis
      using mines_hidden_reveal_at[OF assms, of _ t] indicator by simp
  qed
qed

lemma open_loop_mines_hidden:
  assumes "mines_hidden g"
  shows "mines_hidden (fst (open_loop i (g, tc, tnc)))"
proof -
  have "mines_hidden (fst (open_loop i st))" if "mines_hidden (fst st)" for st
    by (rule open_loop_preserves[where P = "\<lambda>st. mines_hidden (fst st)"])
      (use that in \<open>simp_all add: rotate_step_mines_hidden\<close>)
  from this[of "(g, tc, tnc)"] assms show ?thesis by simp
qed

lemma open_tile_mines_hidden:
  assumes "mines_hidden g" "open_tile g row col = Inr (g', opened)"
  shows "mines_hidden g'"
proof (cases "map_of (tile_grid g) (row, col)")
  case None
  then show ?thesis using assms(2) by (simp add: open_tile_def)
next
  case (Some t)
  show ?thesis
  proof (cases "is_mine t \<or> is_revealed t")
    case True
    then show ?thesis using assms Some by (simp add: open_tile_def)
  next
    case False
    then have "mines_hidden (reveal_at (row, col) t g)"
      using mines_hidden_reveal_at[OF assms(1) Some] by simp
    from open_loop_mines_hidden[OF this, of 0 "[(row, col)]" "[]"]
    show ?thesis using assms(2) Some False
      by (auto simp: open_tile_def split: prod.splits)
  qed
qed

lemmas tile_eval = Tile_def place_mine_def is_mine_def mark_as_revealed_def is_revealed_def
  place_flag_def remove_flag_def is_flagged_def

lemmas setup_eval = Grid_def check_valid_grid_arguments_def set_up_grid_def init_grids_def
  grid_positions_def range_py_def upto.simps random_seed_def
  place_random_mines_def place_one_mine.simps generate_rnd_position_def randint_def
  generate_indicators_def find_surrounding_mine_count_def ROTATIONS_def

lemmas open_eval = open_tile_def open_loop.simps rotate_algorithm_def rotate_step_def
  reveal_at_def is_tile_empty_def is_tile_a_indicator_def ROTATIONS_def Let_def
  grid_positions_def range_py_def upto.simps

lemma example_grid_constructed:
  "Grid counting_twister no_entropy 5 5 1 (Some 0) = Some (Inr (example_grid, fromN 2))"
  by (simp add: setup_eval tile_eval counting_twister_def example_grid_def numeral_2_eq_2)

lemma example_open_corner:
  "map_sum id (\<lambda>r. (revealed_positions (fst r), snd r)) (open_tile example_grid 0 0)
     = Inr ([(0, 0), (1, 0), (1, 1)], [(0, 0), (1, 0), (1, 1)])"
  by (simp add: open_eval tile_eval example_grid_def revealed_positions_def)

lemma example_run_won:
  "run_actions [PlaceFlag 0 1, PlaceFlag 0 0, OpenTile 0 0, OpenTile 2 2] (example_grid, fromN 2)
     = Some (Inr (won_grid, fromN 2))"
  by (simp add: apply_action_def get_tile_def open_eval tile_eval example_grid_def won_grid_def)

lemma flagged_grid_reached:
  "run_actions [PlaceFlag 0 0] (example_grid, fromN 2) = Some (Inr (flagged_grid, fromN 2))"
  by (simp add: apply_action_def get_tile_def tile_eval example_grid_def flagged_grid_def
      grid_positions_def range_py_def upto.simps)

section \<open>What one call of open_tile changes\<close>

lemma open_tile_effect:
  assumes "open_tile g row col = Inr (g', opened)"
  obtains t where "map_of (tile_grid g) (row, col) = Some t"
    and "is_mine t \<or> is_revealed t \<Longrightarrow> g' = g \<and> opened = [(row, col)]"
    and "\<not> (is_mine t \<or> is_revealed t) \<Longrightarrow>
           \<exists>tc tnc. open_loop 0 (reveal_at (row, col) t g, [(row, col)], []) = (g', tc, tnc)
             \<and> opened = tc @ tnc"
  using assms by (auto simp: open_tile_def split: option.splits if_splits prod.splits)

lemma reveal_at_other:
  "p \<noteq> q \<Longrightarrow> map_of (tile_grid (reveal_at q t g)) p = map_of (tile_grid g) p"
  by (simp add: reveal_at_def update_conv')

lemma reveal_at_same:
  "map_of (tile_grid (reveal_at q t g)) q = Some (mark_as_revealed t)"
  by (simp add: reveal_at_def update_conv')

lemma open_tile_clicked_revealed:
  assumes "open_tile g row col = Inr (g', opened)"
  shows "\<exists>t'. map_of (tile_grid g') (row, col) = Some t' \<and> (is_mine t' \<or> is_revealed t')"
  using assms
proof (cases rule: open_tile_effect)
  case (1 t)
  show ?thesis
  proof (cases "is_mine t \<or> is_revealed t")
    case True
    then show ?thesis using 1 by auto
  next
    case False
    then obtain tc tnc where
      loop: "open_loop 0 (reveal_at (row, col) t g, [(row, col)], []) = (g', tc, tnc)"
      using 1(3) by blast
    have "grid_opened (reveal_at (row, col) t g)
            (fst (open_loop 0 (reveal_at (row, col) t g, [(row, col)], [])))"
      by (rule open_loop_grid_opened[OF grid_opened_refl])
    then have "grid_opened (reveal_at (row, col) t g) g'"
      by (simp add: loop)
    from grid_opened_tile[OF this, of "(row, col)"]
    show ?thesis
      by (cases "map_of (tile_grid g') (row, col)")
        (auto simp: reveal_at_same tile_opened_def mark_as_revealed_def is_revealed_def)
  qed
qed

text \<open>
  C6. On a tile that has a mine or is already revealed, \<open>open_tile\<close> returns the grid as it
  was (all tiles, both dictionaries and every other field) together with the one-element
  list of the clicked position; and after any completed \<open>open_tile\<close>, a second call on
  the same position is such a call: it changes nothing and returns that one-element list.
\<close>

theorem open_tile_short_circuit:
  "(map_of (tile_grid g) (row, col) = Some t \<and> (is_mine t \<or> is_revealed t)
      \<longrightarrow> open_tile g row col = Inr (g, [(row, col)]))
   \<and> (open_tile g row col = Inr (g', opened)
      \<longrightarrow> open_tile g' row col = Inr (g', [(row, col)]))"
proof (intro conjI impI)
  assume "map_of (tile_grid g) (row, col) = Some t \<and> (is_mine t \<or> is_revealed t)"
  then show "open_tile g row col = Inr (g, [(row, col)])"
    by (simp add: open_tile_def)
next
  assume "open_tile g row col = Inr (g', opened)"
  from open_tile_clicked_revealed[OF this]
  show "open_tile g' row col = Inr (g', [(row, col)])"
    by (auto simp: open_tile_def)
qed

text \<open>
  An instance: the mine of the example grid is clicked, and the corner is opened twice.
\<close>

theorem open_tile_short_circuit_witness:
  "open_tile example_grid 0 1 = Inr (example_grid, [(0, 1)])
   \<and> open_tile (fst (projr (open_tile example_grid 0 0))) 0 0
       = Inr (fst (projr (open_tile example_grid 0 0)), [(0, 0)])"
proof -
  have a: "map_of (tile_grid example_grid) (0, 1) = Some (place_mine Tile)
           \<and> (is_mine (place_mine Tile) \<or> is_revealed (place_mine Tile))"
    by (simp add: example_grid_def tile_eval grid_positions_def range_py_def upto.simps)
  have "\<exists>r. open_tile example_grid 0 0 = Inr r"
    using example_open_corner by (cases "open_tile example_grid 0 0") auto
  then have b: "open_tile example_grid 0 0
      = Inr (fst (projr (open_tile example_grid 0 0)), snd (projr (open_tile example_grid 0 0)))"
    by auto
  show ?thesis
    using open_tile_short_circuit[of example_grid 0 1 "place_mine Tile"] a
      open_tile_short_circuit[of example_grid 0 0 _ "fst (projr (open_tile example_grid 0 0))"
        "snd (projr (open_tile example_grid 0 0))"] b
    by blast
qed

text \<open>
  C3, as the code has it. The guard of \<open>open_tile\<close> tests the clicked tile for a mine and
  for being revealed, not for a flag, so a click opens a flagged tile. Every other tile
  that is flagged and unrevealed before the call is still there, flagged and unrevealed,
  after it.
\<close>

theorem open_tile_keeps_other_flagged_closed:
  assumes "open_tile g row col = Inr (g', opened)"
    and "map_of (tile_grid g) p = Some t" and "is_flagged t" and "\<not> is_revealed t"
    and "p \<noteq> (row, col)"
  shows "\<exists>t'. map_of (tile_grid g') p = Some t' \<and> is_flagged t' \<and> \<not> is_revealed t'"
  using assms(1)
proof (cases rule: open_tile_effect)
  case (1 c)
  show ?thesis
  proof (cases "is_mine c \<or> is_revealed c")
    case True
    then show ?thesis using 1 assms by auto
  next
    case False
    then obtain tc tnc where
      loop: "open_loop 0 (reveal_at (row, col) c g, [(row, col)], []) = (g', tc, tnc)"
      using 1(3) by blast
    have "grid_opened (reveal_at (row, col) c g)
            (fst (open_loop 0 (reveal_at (row, col) c g, [(row, col)], [])))"
      by (rule open_loop_grid_opened[OF grid_opened_refl])
    then have "grid_opened (reveal_at (row, col) c g) g'"
      by (simp add: loop)
    from grid_opened_tile[OF this, of p]
    show ?thesis
      using assms(2-5)
      by (cases "map_of (tile_grid g') p") (auto simp: reveal_at_other tile_opened_def)
  qed
qed

text \<open>
  An instance: with a flag on the corner \<open>(0, 0)\<close>, opening its neighbour \<open>(1, 1)\<close> leaves
  the corner flagged and unrevealed.
\<close>

theorem open_tile_keeps_other_flagged_closed_witness:
  "\<exists>t'. map_of (tile_grid (fst (projr (open_tile flagged_grid 1 1)))) (0, 0) = Some t'
      \<and> is_flagged t' \<and> \<not> is_revealed t'"
proof -
  have "\<exists>r. open_tile flagged_grid 1 1 = Inr r"
    by (simp add: open_tile_def flagged_grid_def example_grid_def tile_eval
        grid_positions_def range_py_def upto.simps split: prod.splits)
  then have b: "open_tile flagged_grid 1 1
      = Inr (fst (projr (open_tile flagged_grid 1 1)), snd (projr (open_tile flagged_grid 1 1)))"
    by auto
  have a: "map_of (tile_grid flagged_grid) (0, 0) = Some (place_flag Tile)"
    by (simp add: flagged_grid_def update_conv')
  show ?thesis
    by (rule open_tile_keeps_other_flagged_closed[OF b a]) (simp_all add: tile_eval)
qed

text \<open>
  C3 fails at the clicked tile: the corner \<open>(0, 0)\<close> of the example grid, flagged and
  unrevealed, is revealed by \<open>open_tile\<close> on it.
\<close>

theorem open_tile_reveals_flagged_click:
  "map_of (tile_grid flagged_grid) (0, 0) = Some \<lparr>mine = False, revealed = False, flagged = True\<rparr>
   \<and> map_sum id (\<lambda>r. map_of (tile_grid (fst r)) (0, 0)) (open_tile flagged_grid 0 0)
       = Inr (Some \<lparr>mine = False, revealed = True, flagged = True\<rparr>)"
  by (simp add: open_eval tile_eval flagged_grid_def example_grid_def)

section \<open>Winning\<close>

text \<open>
  C5. \<open>check_win\<close> is true exactly when every tile of the dictionary is a flagged mine
  or a revealed tile without a mine. So a grid with all mines flagged and all other
  tiles revealed is won, and a grid with an unrevealed tile without a mine is not.
\<close>

theorem check_win_iff:
  "(check_win g \<longleftrightarrow>
      (\<forall>t \<in> set (map snd (tile_grid g)).
          (is_flagged t \<and> is_mine t) \<or> (is_revealed t \<and> \<not> is_mine t)))
   \<and> ((\<forall>t \<in> set (map snd (tile_grid g)). if is_mine t then is_flagged t else is_revealed t)
        \<longrightarrow> check_win g)
   \<and> ((\<exists>t \<in> set (map snd (tile_grid g)). \<not> is_mine t \<and> \<not> is_revealed t)
        \<longrightarrow> \<not> check_win g)"
  unfolding check_win_def list_all_iff by (auto split: if_splits)

text \<open>
  An instance: the grid with its mine flagged and all other tiles revealed is won, the
  fresh grid is not.
\<close>

theorem check_win_iff_witness:
  "check_win won_grid \<and> \<not> check_win example_grid"
proof -
  have h1: "\<forall>t \<in> set (map snd (tile_grid won_grid)). if is_mine t then is_flagged t else is_revealed t"
    by (simp add: won_grid_def tile_eval grid_positions_def range_py_def upto.simps)
  have h2: "\<exists>t \<in> set (map snd (tile_grid example_grid)). \<not> is_mine t \<and> \<not> is_revealed t"
    by (simp add: example_grid_def tile_eval grid_positions_def range_py_def upto.simps)
  from check_win_iff[of won_grid] h1 have "check_win won_grid" by blast
  moreover from check_win_iff[of example_grid] h2 have "\<not> check_win example_grid" by blast
  ultimately show ?thesis by simp
qed

text \<open>
  C4, as the code has it. The test of \<open>check_win\<close> accepts a revealed tile without a mine
  whether it is flagged or not, so a flag on a safe tile fails the check only while
  that tile is unrevealed.
\<close>

theorem check_win_flagged_unrevealed_safe_tile:
  assumes "(p, t) \<in> set (tile_grid g)" and "\<not> is_mine t" and "is_flagged t" and "\<not> is_revealed t"
  shows "\<not> check_win g"
  using assms unfolding check_win_def list_all_iff by force

text \<open>
  An instance: the example grid with a flag on the unrevealed safe corner is not won.
\<close>

theorem check_win_flagged_unrevealed_safe_tile_witness:
  "\<not> check_win flagged_grid"
proof -
  have "((0, 0), place_flag Tile) \<in> set (tile_grid flagged_grid)"
    by (simp add: flagged_grid_def example_grid_def grid_positions_def range_py_def upto.simps)
  then show ?thesis
    by (rule check_win_flagged_unrevealed_safe_tile) (simp_all add: tile_eval)
qed

text \<open>
  C4 fails on a revealed tile: after the mine \<open>(0, 1)\<close> and the safe corner \<open>(0, 0)\<close> were
  flagged and \<open>(0, 0)\<close> and \<open>(2, 2)\<close> opened, the safe corner is flagged and \<open>check_win\<close>
  is true.
\<close>

theorem check_win_with_flagged_safe_tile:
  "map_option (map_sum id (\<lambda>st. (check_win (fst st), map_of (tile_grid (fst st)) (0, 0))))
     (run_actions [PlaceFlag 0 1, PlaceFlag 0 0, OpenTile 0 0, OpenTile 2 2]
        (example_grid, fromN 2))
   = Some (Inr (True, Some \<lparr>mine = False, revealed = True, flagged = True\<rparr>))"
  unfolding example_run_won
  by (simp add: won_grid_def check_win_def tile_eval grid_positions_def range_py_def upto.simps)

section \<open>The keys of a grid\<close>

lemma grid_positions_product: "grid_positions h w = List.product (range_py h) (range_py w)"
  by (simp add: grid_positions_def product_concat_map)

lemma distinct_grid_positions: "distinct (grid_positions h w)"
  by (simp add: grid_positions_product range_py_def distinct_product)

lemma set_grid_positions:
  "set (grid_positions h w) = {(r, c). 0 \<le> r \<and> r < h \<and> 0 \<le> c \<and> c < w}"
  by (auto simp: grid_positions_product range_py_def)

lemma length_grid_positions: "length (grid_positions h w) = nat h * nat w"
  by (simp add: grid_positions_product range_py_def)

lemma update_absent: "p \<notin> fst ` set al \<Longrightarrow> AList.update p v al = al @ [(p, v)]"
  by (induction al) auto

lemma fold_update_fresh:
  "distinct ps \<Longrightarrow> set ps \<inter> fst ` set al = {} \<Longrightarrow>
   fold (\<lambda>p. AList.update p v) ps al = al @ map (\<lambda>p. (p, v)) ps"
proof (induction ps arbitrary: al)
  case Nil
  then show ?case by simp
next
  case (Cons p ps)
  have "AList.update p v al = al @ [(p, v)]"
    using Cons.prems by (intro update_absent) auto
  moreover have "set ps \<inter> fst ` set (al @ [(p, v)]) = {}"
    using Cons.prems by auto
  ultimately show ?case using Cons.IH[of "al @ [(p, v)]"] Cons.prems by simp
qed

lemma init_grids_fold:
  "fold (\<lambda>p g'. g'\<lparr>tile_grid := AList.update p x (tile_grid g'),
                    mine_count_grid := AList.update p y (mine_count_grid g')\<rparr>) ps g
   = g\<lparr>tile_grid := fold (\<lambda>p. AList.update p x) ps (tile_grid g),
        mine_count_grid := fold (\<lambda>p. AList.update p y) ps (mine_count_grid g)\<rparr>"
  by (induction ps arbitrary: g) simp_all

lemma init_grids_empty:
  assumes "tile_grid g = []" "mine_count_grid g = []"
  shows "init_grids g =
     g\<lparr>tile_grid := map (\<lambda>p. (p, Tile)) (grid_positions (grid_height g) (grid_width g)),
        mine_count_grid := map (\<lambda>p. (p, 0)) (grid_positions (grid_height g) (grid_width g))\<rparr>"
  unfolding init_grids_def init_grids_fold
  by (simp add: assms fold_update_fresh distinct_grid_positions)

section \<open>Drawing a position\<close>

lemma generate_rnd_position_drawn:
  assumes "1 \<le> grid_height g" "1 \<le> grid_width g"
  shows "generate_rnd_position g s
    = Inr (drawn_position (grid_height g) (grid_width g) s 0, sdrop 2 s)"
  using assms by (simp add: generate_rnd_position_def randint_def drawn_position_def numeral_2_eq_2)

lemma drawn_position_in_grid:
  assumes "1 \<le> h" "1 \<le> w"
  shows "drawn_position h w s k \<in> set (grid_positions h w)"
proof -
  have "int (s !! (2 * k) mod nat h) < h" "int (s !! (2 * k + 1) mod nat w) < w"
    using assms by (simp_all add: nat_less_iff[symmetric] flip: zless_nat_eq_int_zless)
  then show ?thesis by (simp add: set_grid_positions drawn_position_def)
qed

lemma drawn_position_sdrop:
  "drawn_position h w (sdrop (2 * j) s) k = drawn_position h w s (j + k)"
  by (simp add: drawn_position_def sdrop_snth algebra_simps)

lemma fair_rng_sdrop: "fair_rng h w s \<Longrightarrow> fair_rng h w (sdrop (2 * j) s)"
proof -
  assume fair: "fair_rng h w s"
  show ?thesis
    unfolding fair_rng_def
  proof (intro ballI allI)
    fix p n assume "p \<in> set (grid_positions h w)"
    with fair obtain k where "k \<ge> j + n" "drawn_position h w s k = p"
      unfolding fair_rng_def by blast
    then have "k - j \<ge> n" "drawn_position h w (sdrop (2 * j) s) (k - j) = p"
      by (simp_all add: drawn_position_sdrop)
    then show "\<exists>k\<ge>n. drawn_position h w (sdrop (2 * j) s) k = p" by blast
  qed
qed

lemma dense_tile_lookup:
  assumes "dense g" "p \<in> set (grid_positions (grid_height g) (grid_width g))"
  shows "\<exists>t. map_of (tile_grid g) p = Some t"
proof -
  have "p \<in> fst ` set (tile_grid g)"
    using assms by (metis dense_def set_map)
  then show ?thesis by (metis domD dom_map_of_conv_image_fst)
qed

section \<open>Placing the mines\<close>

lemma mine_placedI:
  "map_of (tile_grid g) p = Some t \<Longrightarrow> \<not> is_mine t \<Longrightarrow>
   mine_placed g (g\<lparr>tile_grid := AList.update p (place_mine t) (tile_grid g)\<rparr>)"
  unfolding mine_placed_def by blast

lemma place_one_mine_result_aux:
  assumes "place_one_mine g s = Some r"
  shows "\<forall>g' s'. r = Inr (g', s') \<longrightarrow> mine_placed g g' \<and> (\<exists>j. s' = sdrop (2 * j) s)"
  using assms
proof (induction rule: place_one_mine.raw_induct[rotated 1, consumes 1])
  case (1 place_one_mine g s r)
  show ?case
  proof (intro allI impI)
    fix g' s' assume r: "r = Inr (g', s')"
    from "1.hyps" r obtain p s1 where gen: "generate_rnd_position g s = Inr (p, s1)"
      by (auto split: sum.splits)
    have s1: "s1 = sdrop 2 s"
      using gen by (auto simp: generate_rnd_position_def randint_def numeral_2_eq_2 split: if_splits)
    from "1.hyps" r gen obtain t where t: "map_of (tile_grid g) p = Some t"
      by (auto split: option.splits)
    show "mine_placed g g' \<and> (\<exists>j. s' = sdrop (2 * j) s)"
    proof (cases "is_mine t")
      case False
      then have "g' = g\<lparr>tile_grid := AList.update p (place_mine t) (tile_grid g)\<rparr>" "s' = s1"
        using "1.hyps" r gen t by simp_all
      moreover have "sdrop 2 s = sdrop (2 * 1) s" by simp
      ultimately show ?thesis
        using mine_placedI[OF t False] s1 by blast
    next
      case True
      then have "place_one_mine g s1 = Some r"
        using "1.hyps" gen t by simp
      from "1.IH"[OF this] r obtain j where "mine_placed g g'" "s' = sdrop (2 * j) s1"
        by blast
      moreover have "sdrop (2 * j) (sdrop 2 s) = sdrop (2 * Suc j) s" by simp
      ultimately show ?thesis
        using s1 by blast
    qed
  qed
qed

lemma place_one_mine_result:
  assumes "place_one_mine g s = Some (Inr (g', s'))"
  shows "mine_placed g g' \<and> (\<exists>j. s' = sdrop (2 * j) s)"
  using place_one_mine_result_aux[OF assms] by blast

lemma place_one_mine_no_error_aux:
  assumes "place_one_mine g s = Some r"
  shows "dense g \<and> 1 \<le> grid_height g \<and> 1 \<le> grid_width g \<longrightarrow> (\<forall>e. r \<noteq> Inl e)"
  using assms
proof (induction rule: place_one_mine.raw_induct[rotated 1, consumes 1])
  case (1 place_one_mine g s r)
  show ?case
  proof (intro impI)
    assume wf: "dense g \<and> 1 \<le> grid_height g \<and> 1 \<le> grid_width g"
    let ?p = "drawn_position (grid_height g) (grid_width g) s 0"
    have gen: "generate_rnd_position g s = Inr (?p, sdrop 2 s)"
      using wf by (simp add: generate_rnd_position_drawn)
    obtain t where t: "map_of (tile_grid g) ?p = Some t"
      using dense_tile_lookup[of g ?p] drawn_position_in_grid[of "grid_height g" "grid_width g"] wf
      by blast
    show "\<forall>e. r \<noteq> Inl e"
    proof (cases "is_mine t")
      case False
      then show ?thesis using "1.hyps" gen t by auto
    next
      case True
      then have "place_one_mine g (sdrop 2 s) = Some r"
        using "1.hyps" gen t by simp
      from "1.IH"[OF this] wf show ?thesis by blast
    qed
  qed
qed

lemma place_one_mine_no_error:
  assumes "place_one_mine g s = Some (Inl e)"
    and "dense g" "1 \<le> grid_height g" "1 \<le> grid_width g"
  shows False
  using place_one_mine_no_error_aux[OF assms(1)] assms(2-4) by blast

lemma place_one_mine_returns:
  assumes "dense g" "1 \<le> grid_height g" "1 \<le> grid_width g"
    and "map_of (tile_grid g) (drawn_position (grid_height g) (grid_width g) s k) = Some t"
    and "\<not> is_mine t"
  shows "\<exists>g' s'. place_one_mine g s = Some (Inr (g', s'))"
  using assms(4,5)
proof (induction k arbitrary: s)
  case 0
  then show ?case
    by (subst place_one_mine.simps) (simp add: generate_rnd_position_drawn assms(2,3))
next
  case (Suc k)
  let ?p = "drawn_position (grid_height g) (grid_width g) s 0"
  obtain t0 where t0: "map_of (tile_grid g) ?p = Some t0"
    using dense_tile_lookup[OF assms(1)] drawn_position_in_grid assms(2,3) by blast
  show ?case
  proof (cases "is_mine t0")
    case False
    then show ?thesis
      by (subst place_one_mine.simps) (simp add: generate_rnd_position_drawn assms(2,3) t0)
  next
    case True
    have "drawn_position (grid_height g) (grid_width g) (sdrop (2 * 1) s) k
          = drawn_position (grid_height g) (grid_width g) s (Suc k)"
      by (simp only: drawn_position_sdrop) simp
    then have "\<exists>g' s'. place_one_mine g (sdrop 2 s) = Some (Inr (g', s'))"
      using Suc.IH[of "sdrop 2 s"] Suc.prems by simp
    then show ?thesis
      using True by (subst place_one_mine.simps) (simp add: generate_rnd_position_drawn assms(2,3) t0)
  qed
qed

lemma mine_placed_fields:
  assumes "mine_placed g g'"
  shows "grid_height g' = grid_height g" "grid_width g' = grid_width g"
    "mine_count g' = mine_count g" "mine_count_grid g' = mine_count_grid g" "seed g' = seed g"
    "map fst (tile_grid g') = map fst (tile_grid g)"
  using assms unfolding mine_placed_def by (auto simp: update_keys_present)

lemma mine_placed_dense: "mine_placed g g' \<Longrightarrow> dense g \<Longrightarrow> dense g'"
  by (simp add: dense_def mine_placed_fields)

lemma filter_update_mine:
  "map_of al p = Some t \<Longrightarrow> \<not> is_mine t \<Longrightarrow>
   length (filter (\<lambda>kv. is_mine (snd kv)) (AList.update p (place_mine t) al))
     = Suc (length (filter (\<lambda>kv. is_mine (snd kv)) al))"
  by (induction al) (auto simp: place_mine_def is_mine_def split: if_splits)

lemma mine_placed_total: "mine_placed g g' \<Longrightarrow> mine_total g' = Suc (mine_total g)"
  unfolding mine_placed_def mine_total_def by (auto simp: filter_update_mine)

lemma mine_placed_unopened: "mine_placed g g' \<Longrightarrow> unopened g \<Longrightarrow> unopened g'"
  unfolding mine_placed_def unopened_def
  by (auto simp: update_conv' place_mine_def is_revealed_def split: if_splits)

lemma place_mines_invariant:
  assumes step: "\<And>g g'. I g \<Longrightarrow> mine_placed g g' \<Longrightarrow> I g'"
    and "I g" and "place_mines n g s = Some (Inr (g', s'))"
  shows "I g'"
  using assms(2,3)
proof (induction n arbitrary: g s)
  case 0
  then show ?case by simp
next
  case (Suc n)
  from Suc.prems(2) obtain g1 s1 where one: "place_one_mine g s = Some (Inr (g1, s1))"
    and rest: "place_mines n g1 s1 = Some (Inr (g', s'))"
    by (auto split: option.splits sum.splits)
  have "I g1" using step[OF Suc.prems(1)] place_one_mine_result[OF one] by blast
  from Suc.IH[OF this rest] show ?case .
qed

lemma place_mines_total:
  assumes "place_mines n g s = Some (Inr (g', s'))"
  shows "mine_total g' = mine_total g + n"
  using assms
proof (induction n arbitrary: g s)
  case 0
  then show ?case by simp
next
  case (Suc n)
  from Suc.prems obtain g1 s1 where one: "place_one_mine g s = Some (Inr (g1, s1))"
    and rest: "place_mines n g1 s1 = Some (Inr (g', s'))"
    by (auto split: option.splits sum.splits)
  have "mine_total g1 = Suc (mine_total g)"
    using place_one_mine_result[OF one] by (simp add: mine_placed_total)
  with Suc.IH[OF rest] show ?case by simp
qed

lemma place_mines_no_error:
  assumes "place_mines n g s = Some (Inl e)"
    and "dense g" "1 \<le> grid_height g" "1 \<le> grid_width g"
  shows False
  using assms
proof (induction n arbitrary: g s)
  case 0
  then show ?case by simp
next
  case (Suc n)
  show ?case
  proof (cases "place_one_mine g s")
    case None
    then show ?thesis using Suc.prems(1) by simp
  next
    case (Some r)
    show ?thesis
    proof (cases r)
      case (Inl e')
      then show ?thesis using place_one_mine_no_error[of g s e'] Some Suc.prems by simp
    next
      case (Inr gs)
      obtain g1 s1 where gs: "gs = (g1, s1)" by (cases gs)
      have placed: "mine_placed g g1"
        using place_one_mine_result[of g s g1 s1] Some Inr gs by simp
      have "place_mines n g1 s1 = Some (Inl e)"
        using Suc.prems(1) Some Inr gs by simp
      from Suc.IH[OF this mine_placed_dense[OF placed Suc.prems(2)]]
      show ?thesis using Suc.prems(3,4) by (simp add: mine_placed_fields[OF placed])
    qed
  qed
qed

lemma free_tile_exists:
  assumes "dense g" "mine_total g < length (tile_grid g)"
  obtains p t where "p \<in> set (grid_positions (grid_height g) (grid_width g))"
    "map_of (tile_grid g) p = Some t" "\<not> is_mine t"
proof -
  have "\<exists>kv \<in> set (tile_grid g). \<not> is_mine (snd kv)"
  proof (rule ccontr)
    assume "\<not> ?thesis"
    then have "filter (\<lambda>kv. is_mine (snd kv)) (tile_grid g) = tile_grid g" by simp
    then show False using assms(2) by (simp add: mine_total_def)
  qed
  then obtain p t where in_set: "(p, t) \<in> set (tile_grid g)" and free: "\<not> is_mine t" by auto
  have "distinct (map fst (tile_grid g))"
    using assms(1) by (simp add: dense_def distinct_grid_positions)
  then have "map_of (tile_grid g) p = Some t" using in_set by simp
  moreover have "p \<in> set (grid_positions (grid_height g) (grid_width g))"
    using in_set assms(1) by (metis dense_def fst_conv image_eqI set_map)
  ultimately show ?thesis using that free by blast
qed

lemma place_mines_returns:
  assumes "fair_rng (grid_height g) (grid_width g) s" "dense g"
    "1 \<le> grid_height g" "1 \<le> grid_width g" "mine_total g + n \<le> length (tile_grid g)"
  shows "\<exists>g' s'. place_mines n g s = Some (Inr (g', s'))"
  using assms
proof (induction n arbitrary: g s)
  case 0
  then show ?case by simp
next
  case (Suc n)
  have less: "mine_total g < length (tile_grid g)"
    using Suc.prems(5) by linarith
  obtain p t where p: "p \<in> set (grid_positions (grid_height g) (grid_width g))"
      "map_of (tile_grid g) p = Some t" "\<not> is_mine t"
    by (rule free_tile_exists[OF Suc.prems(2) less])
  obtain k where k: "drawn_position (grid_height g) (grid_width g) s k = p"
    using Suc.prems(1) p(1) unfolding fair_rng_def by blast
  have "\<exists>g' s'. place_one_mine g s = Some (Inr (g', s'))"
    by (rule place_one_mine_returns[OF Suc.prems(2,3,4), of s k t]) (simp_all add: k p)
  then obtain g1 s1 where one: "place_one_mine g s = Some (Inr (g1, s1))" by blast
  have placed: "mine_placed g g1" and "\<exists>j. s1 = sdrop (2 * j) s"
    using place_one_mine_result[OF one] by simp_all
  then obtain j where s1: "s1 = sdrop (2 * j) s" by blast
  have len: "length (tile_grid g1) = length (tile_grid g)"
    using mine_placed_fields(6)[OF placed] by (metis length_map)
  have h: "grid_height g1 = grid_height g" and w: "grid_width g1 = grid_width g"
    by (simp_all add: mine_placed_fields[OF placed])
  have a1: "fair_rng (grid_height g1) (grid_width g1) s1"
    unfolding h w s1 by (rule fair_rng_sdrop[OF Suc.prems(1)])
  have a2: "dense g1" by (rule mine_placed_dense[OF placed Suc.prems(2)])
  have a3: "1 \<le> grid_height g1" "1 \<le> grid_width g1"
    using Suc.prems(3,4) by (simp_all add: h w)
  have a4: "mine_total g1 + n \<le> length (tile_grid g1)"
    using Suc.prems(5) by (simp add: len mine_placed_total[OF placed])
  have "\<exists>g' s'. place_mines n g1 s1 = Some (Inr (g', s'))"
    by (rule Suc.IH[OF a1 a2 a3 a4])
  then show ?case using one by simp
qed

section \<open>Computing the indicators\<close>

lemma find_surrounding_mine_count_tiles:
  "tile_grid g' = tile_grid g \<Longrightarrow>
   find_surrounding_mine_count g' row col = find_surrounding_mine_count g row col"
  by (simp add: find_surrounding_mine_count_def)

lemma generate_indicators_loop_result:
  assumes "generate_indicators_loop ps g = Inr g'"
  shows "g' = g\<lparr>mine_count_grid := mine_count_grid g'\<rparr> \<and>
    (\<forall>p. map_of (mine_count_grid g') p =
       (if p \<in> set ps \<and> (\<exists>t. map_of (tile_grid g) p = Some t \<and> \<not> is_mine t)
        then Some (find_surrounding_mine_count g (fst p) (snd p))
        else map_of (mine_count_grid g) p))"
  using assms
proof (induction ps arbitrary: g)
  case Nil
  then show ?case by simp
next
  case (Cons q ps)
  obtain row col where q: "q = (row, col)" by (cases q)
  from Cons.prems obtain t where t: "map_of (tile_grid g) (row, col) = Some t"
    by (auto simp: q split: option.splits)
  show ?case
  proof (cases "is_mine t")
    case True
    then have "generate_indicators_loop ps g = Inr g'"
      using Cons.prems t by (simp add: q)
    from Cons.IH[OF this] show ?thesis
      using True t by (auto simp: q)
  next
    case False
    let ?g1 = "g\<lparr>mine_count_grid :=
                  AList.update (row, col) (find_surrounding_mine_count g row col)
                    (mine_count_grid g)\<rparr>"
    have "generate_indicators_loop ps ?g1 = Inr g'"
      using Cons.prems t False by (simp add: q)
    from Cons.IH[OF this]
    have a: "g' = ?g1\<lparr>mine_count_grid := mine_count_grid g'\<rparr>"
      and b: "\<And>p. map_of (mine_count_grid g') p =
         (if p \<in> set ps \<and> (\<exists>t. map_of (tile_grid ?g1) p = Some t \<and> \<not> is_mine t)
          then Some (find_surrounding_mine_count ?g1 (fst p) (snd p))
          else map_of (mine_count_grid ?g1) p)"
      by blast+
    have fc: "find_surrounding_mine_count ?g1 r c = find_surrounding_mine_count g r c" for r c
      by (rule find_surrounding_mine_count_tiles) simp
    have "g' = g\<lparr>mine_count_grid := mine_count_grid g'\<rparr>"
      using a by simp
    moreover have "map_of (mine_count_grid g') p =
       (if p \<in> set (q # ps) \<and> (\<exists>t. map_of (tile_grid g) p = Some t \<and> \<not> is_mine t)
        then Some (find_surrounding_mine_count g (fst p) (snd p))
        else map_of (mine_count_grid g) p)" for p
      unfolding b[of p] fc using t False
      by (cases "p = (row, col)") (auto simp: q update_conv')
    ultimately show ?thesis by blast
  qed
qed

lemma generate_indicators_loop_keys:
  assumes "generate_indicators_loop ps g = Inr g'"
    and "set ps \<subseteq> fst ` set (mine_count_grid g)"
  shows "map fst (mine_count_grid g') = map fst (mine_count_grid g)"
  using assms
proof (induction ps arbitrary: g)
  case Nil
  then show ?case by simp
next
  case (Cons q ps)
  obtain row col where q: "q = (row, col)" by (cases q)
  from Cons.prems obtain t where t: "map_of (tile_grid g) (row, col) = Some t"
    by (auto simp: q split: option.splits)
  show ?case
  proof (cases "is_mine t")
    case True
    then have "generate_indicators_loop ps g = Inr g'"
      using Cons.prems t by (simp add: q)
    from Cons.IH[OF this] Cons.prems(2) show ?thesis by simp
  next
    case False
    let ?g1 = "g\<lparr>mine_count_grid :=
                  AList.update (row, col) (find_surrounding_mine_count g row col)
                    (mine_count_grid g)\<rparr>"
    have run: "generate_indicators_loop ps ?g1 = Inr g'"
      using Cons.prems t False by (simp add: q)
    have "(row, col) \<in> fst ` set (mine_count_grid g)"
      using Cons.prems(2) by (simp add: q)
    then have keys: "map fst (mine_count_grid ?g1) = map fst (mine_count_grid g)"
      by (simp add: update_keys)
    then have "set ps \<subseteq> fst ` set (mine_count_grid ?g1)"
      using Cons.prems(2) by (metis list.set_map set_subset_Cons subset_trans)
    from Cons.IH[OF run this] keys show ?thesis by simp
  qed
qed

lemma generate_indicators_loop_succeeds:
  assumes "set ps \<subseteq> fst ` set (tile_grid g)"
  shows "\<exists>g'. generate_indicators_loop ps g = Inr g'"
  using assms
proof (induction ps arbitrary: g)
  case Nil
  then show ?case by simp
next
  case (Cons q ps)
  obtain row col where q: "q = (row, col)" by (cases q)
  have "(row, col) \<in> fst ` set (tile_grid g)" using Cons.prems by (simp add: q)
  then obtain t where t: "map_of (tile_grid g) (row, col) = Some t"
    by (metis domD dom_map_of_conv_image_fst)
  have rest: "set ps \<subseteq> fst ` set (tile_grid g)" using Cons.prems by simp
  show ?case
  proof (cases "is_mine t")
    case True
    then show ?thesis using Cons.IH[OF rest] t by (simp add: q)
  next
    case False
    let ?g1 = "g\<lparr>mine_count_grid :=
                  AList.update (row, col) (find_surrounding_mine_count g row col)
                    (mine_count_grid g)\<rparr>"
    have "set ps \<subseteq> fst ` set (tile_grid ?g1)" using rest by simp
    from Cons.IH[OF this] show ?thesis using t False by (simp add: q)
  qed
qed

section \<open>The grid after set-up\<close>

lemma unopenedD:
  "unopened g \<Longrightarrow> map_of (tile_grid g) p = Some t \<Longrightarrow>
   \<not> is_revealed t \<and> map_of (mine_count_grid g) p = Some 0"
  unfolding unopened_def by blast

lemma map_of_constant_grid:
  "map_of (map (\<lambda>p. (p, v)) ps) p = (if p \<in> set ps then Some v else None)"
  by (induction ps) auto

lemma init_grids_inv:
  assumes "tile_grid g0 = []" "mine_count_grid g0 = []"
  shows "set_up_inv g0 (init_grids g0)" and "mine_total (init_grids g0) = 0"
proof -
  show "set_up_inv g0 (init_grids g0)"
    unfolding init_grids_empty[OF assms] set_up_inv_def dense_def unopened_def
    by (simp add: comp_def map_of_constant_grid Tile_def is_revealed_def)
  show "mine_total (init_grids g0) = 0"
    unfolding init_grids_empty[OF assms] mine_total_def
    by (simp add: filter_map comp_def Tile_def is_mine_def)
qed

lemma set_up_inv_mine_placed: "set_up_inv g0 g \<Longrightarrow> mine_placed g g' \<Longrightarrow> set_up_inv g0 g'"
  unfolding set_up_inv_def
  by (simp add: mine_placed_fields mine_placed_dense mine_placed_unopened)

lemma set_up_grid_parts:
  assumes "set_up_grid g0 s = Some (Inr (g, s'))"
  obtains g1 where "place_mines (nat (mine_count (init_grids g0))) (init_grids g0) s = Some (Inr (g1, s'))"
    and "generate_indicators_loop (grid_positions (grid_height g1) (grid_width g1)) g1 = Inr g"
  using assms unfolding set_up_grid_def place_random_mines_def generate_indicators_def
  by (auto split: option.splits sum.splits)

lemma set_up_grid_result:
  assumes run: "set_up_grid g0 s = Some (Inr (g, s'))"
    and empty: "tile_grid g0 = []" "mine_count_grid g0 = []"
  shows "grid_height g = grid_height g0" "grid_width g = grid_width g0"
    "mine_count g = mine_count g0" "seed g = seed g0"
    "dense g" "mine_total g = nat (mine_count g0)"
    "\<And>p t. map_of (tile_grid g) p = Some t \<Longrightarrow> \<not> is_revealed t"
    "\<And>p t. map_of (tile_grid g) p = Some t \<Longrightarrow>
       map_of (mine_count_grid g) p =
         Some (if is_mine t then 0 else find_surrounding_mine_count g (fst p) (snd p))"
proof -
  from run obtain g1 where
    pm: "place_mines (nat (mine_count (init_grids g0))) (init_grids g0) s = Some (Inr (g1, s'))"
    and gi: "generate_indicators_loop (grid_positions (grid_height g1) (grid_width g1)) g1 = Inr g"
    by (rule set_up_grid_parts)
  have inv0: "set_up_inv g0 (init_grids g0)" and tot0: "mine_total (init_grids g0) = 0"
    by (rule init_grids_inv[OF empty])+
  have inv1: "set_up_inv g0 g1"
    by (rule place_mines_invariant[where I = "set_up_inv g0", OF set_up_inv_mine_placed inv0 pm])
  have mc0: "mine_count (init_grids g0) = mine_count g0"
    using inv0 by (simp add: set_up_inv_def)
  have tot1: "mine_total g1 = nat (mine_count g0)"
    using place_mines_total[OF pm] tot0 mc0 by simp
  note res = generate_indicators_loop_result[OF gi]
  have geq: "g = g1\<lparr>mine_count_grid := mine_count_grid g\<rparr>" using res by blast
  have tiles: "tile_grid g = tile_grid g1" by (subst geq) simp
  have d1: "dense g1" and u1: "unopened g1" using inv1 by (simp_all add: set_up_inv_def)
  have keys1: "set (grid_positions (grid_height g1) (grid_width g1)) \<subseteq> fst ` set (mine_count_grid g1)"
    using d1 by (metis dense_def list.set_map subset_refl)
  have keys: "map fst (mine_count_grid g) = map fst (mine_count_grid g1)"
    by (rule generate_indicators_loop_keys[OF gi keys1])
  show "grid_height g = grid_height g0" "grid_width g = grid_width g0"
    "mine_count g = mine_count g0" "seed g = seed g0"
    using inv1 by (subst geq, simp add: set_up_inv_def)+
  have hw: "grid_height g = grid_height g1" "grid_width g = grid_width g1"
    by (subst geq, simp)+
  show "dense g"
    using d1 by (simp add: dense_def tiles keys hw)
  show "mine_total g = nat (mine_count g0)"
    using tot1 by (simp add: mine_total_def tiles)
  show "\<not> is_revealed t" if "map_of (tile_grid g) p = Some t" for p t
    using unopenedD[OF u1, of p t] that by (simp add: tiles)
  show "map_of (mine_count_grid g) p =
         Some (if is_mine t then 0 else find_surrounding_mine_count g (fst p) (snd p))"
    if "map_of (tile_grid g) p = Some t" for p t
  proof -
    have t1: "map_of (tile_grid g1) p = Some t" using that by (simp add: tiles)
    have "p \<in> fst ` set (tile_grid g1)"
      using t1 by (metis domI dom_map_of_conv_image_fst)
    then have inpos: "p \<in> set (grid_positions (grid_height g1) (grid_width g1))"
      using d1 by (metis dense_def list.set_map)
    have c1: "map_of (mine_count_grid g1) p = Some 0"
      using unopenedD[OF u1 t1] by simp
    have fc: "find_surrounding_mine_count g (fst p) (snd p)
            = find_surrounding_mine_count g1 (fst p) (snd p)"
      by (rule find_surrounding_mine_count_tiles[OF tiles])
    from res have "map_of (mine_count_grid g) p =
       (if p \<in> set (grid_positions (grid_height g1) (grid_width g1))
             \<and> (\<exists>t. map_of (tile_grid g1) p = Some t \<and> \<not> is_mine t)
        then Some (find_surrounding_mine_count g1 (fst p) (snd p))
        else map_of (mine_count_grid g1) p)"
      by blast
    then show ?thesis using t1 inpos c1 fc by auto
  qed
qed

lemma set_up_grid_mines_hidden:
  assumes "set_up_grid g0 s = Some (Inr (g, s'))" "tile_grid g0 = []" "mine_count_grid g0 = []"
  shows "mines_hidden g"
  unfolding mines_hidden_def is_tile_a_indicator_def
  using set_up_grid_result(7,8)[OF assms] by auto

lemma set_up_grid_no_error:
  assumes run: "set_up_grid g0 s = Some (Inl e)"
    and empty: "tile_grid g0 = []" "mine_count_grid g0 = []"
    and size: "1 \<le> grid_height g0" "1 \<le> grid_width g0"
  shows False
proof -
  have inv0: "set_up_inv g0 (init_grids g0)" by (rule init_grids_inv[OF empty])
  then have d0: "dense (init_grids g0)" and h0: "1 \<le> grid_height (init_grids g0)"
    and w0: "1 \<le> grid_width (init_grids g0)"
    using size by (simp_all add: set_up_inv_def)
  show False
  proof (cases "place_mines (nat (mine_count (init_grids g0))) (init_grids g0) s")
    case None
    then show ?thesis using run by (simp add: set_up_grid_def place_random_mines_def)
  next
    case (Some r)
    show ?thesis
    proof (cases r)
      case (Inl e')
      then show ?thesis using place_mines_no_error[OF _ d0 h0 w0] Some by blast
    next
      case (Inr gs)
      obtain g1 s1 where gs: "gs = (g1, s1)" by (cases gs)
      have pm: "place_mines (nat (mine_count (init_grids g0))) (init_grids g0) s = Some (Inr (g1, s1))"
        using Some Inr gs by simp
      have "set_up_inv g0 g1"
        by (rule place_mines_invariant[where I = "set_up_inv g0", OF set_up_inv_mine_placed inv0 pm])
      then have "dense g1" by (simp add: set_up_inv_def)
      then have "set (grid_positions (grid_height g1) (grid_width g1)) \<subseteq> fst ` set (tile_grid g1)"
        by (metis dense_def list.set_map subset_refl)
      from generate_indicators_loop_succeeds[OF this] show ?thesis
        using run pm by (auto simp: set_up_grid_def place_random_mines_def generate_indicators_def)
    qed
  qed
qed

lemma set_up_grid_returns:
  assumes empty: "tile_grid g0 = []" "mine_count_grid g0 = []"
    and size: "1 \<le> grid_height g0" "1 \<le> grid_width g0"
    and mines: "mine_count g0 \<le> grid_height g0 * grid_width g0"
    and fair: "fair_rng (grid_height g0) (grid_width g0) s"
  shows "\<exists>g s'. set_up_grid g0 s = Some (Inr (g, s'))"
proof -
  have inv0: "set_up_inv g0 (init_grids g0)" and tot0: "mine_total (init_grids g0) = 0"
    by (rule init_grids_inv[OF empty])+
  then have d0: "dense (init_grids g0)" and h0: "grid_height (init_grids g0) = grid_height g0"
    and w0: "grid_width (init_grids g0) = grid_width g0"
    and m0: "mine_count (init_grids g0) = mine_count g0"
    by (simp_all add: set_up_inv_def)
  have len: "length (tile_grid (init_grids g0)) = nat (grid_height g0) * nat (grid_width g0)"
    using d0 by (metis dense_def h0 w0 length_grid_positions length_map)
  have "nat (mine_count g0) \<le> nat (grid_height g0 * grid_width g0)"
    using mines by simp
  then have bound: "mine_total (init_grids g0) + nat (mine_count (init_grids g0))
      \<le> length (tile_grid (init_grids g0))"
    using size by (simp add: tot0 m0 len nat_mult_distrib)
  have "\<exists>g1 s1. place_mines (nat (mine_count (init_grids g0))) (init_grids g0) s = Some (Inr (g1, s1))"
    by (rule place_mines_returns[OF _ d0 _ _ bound]) (simp_all add: h0 w0 fair size)
  then obtain g1 s1 where
    pm: "place_mines (nat (mine_count (init_grids g0))) (init_grids g0) s = Some (Inr (g1, s1))"
    by blast
  show ?thesis
  proof (cases "set_up_grid g0 s")
    case None
    then show ?thesis using pm
      by (auto simp: set_up_grid_def place_random_mines_def split: sum.splits)
  next
    case (Some r)
    then show ?thesis
      using set_up_grid_no_error[OF _ empty size] by (cases r) auto
  qed
qed

section \<open>No mine is ever revealed\<close>

lemma Grid_parts:
  assumes "Grid twister e h w m seed_arg = Some (Inr (g, s))"
  obtains g0 where "check_valid_grid_arguments h w m = Inr ()"
    and "g0 = \<lparr>grid_height = h, grid_width = w, mine_count = m, tile_grid = [],
              mine_count_grid = [],
              seed = (case seed_arg of Some n \<Rightarrow> n | None \<Rightarrow> generate_seed e)\<rparr>"
    and "set_up_grid g0 (random_seed twister e seed_arg) = Some (Inr (g, s))"
  using assms unfolding Grid_def by (auto split: sum.splits)

lemma Grid_mines_hidden:
  assumes "Grid twister e h w m seed_arg = Some (Inr (g, s))"
  shows "mines_hidden g"
  using assms
proof (rule Grid_parts)
  fix g0 :: grid
  assume g0: "g0 = \<lparr>grid_height = h, grid_width = w, mine_count = m, tile_grid = [],
              mine_count_grid = [],
              seed = (case seed_arg of Some n \<Rightarrow> n | None \<Rightarrow> generate_seed e)\<rparr>"
    and run: "set_up_grid g0 (random_seed twister e seed_arg) = Some (Inr (g, s))"
  show "mines_hidden g"
    by (rule set_up_grid_mines_hidden[OF run]) (simp_all add: g0)
qed

lemma mines_hidden_flag_update:
  assumes "mines_hidden g" "map_of (tile_grid g) p = Some t"
    "is_mine t' = is_mine t" "is_revealed t' = is_revealed t"
  shows "mines_hidden (g\<lparr>tile_grid := AList.update p t' (tile_grid g)\<rparr>)"
  using assms unfolding mines_hidden_def is_tile_a_indicator_def
  by (auto simp: update_conv' split: if_splits)

lemma apply_action_mines_hidden:
  assumes "mines_hidden g" "apply_action a (g, s) = Some (Inr (g', s'))"
  shows "mines_hidden g'"
proof (cases a)
  case (OpenTile row col)
  then obtain opened where "open_tile g row col = Inr (g', opened)"
    using assms(2) by (auto simp: apply_action_def split: sum.splits)
  then show ?thesis by (rule open_tile_mines_hidden[OF assms(1)])
next
  case (PlaceFlag row col)
  then obtain t where "map_of (tile_grid g) (row, col) = Some t"
    and "g' = g\<lparr>tile_grid := AList.update (row, col) (place_flag t) (tile_grid g)\<rparr>"
    using assms(2) by (auto simp: apply_action_def get_tile_def split: sum.splits option.splits)
  then show ?thesis
    using mines_hidden_flag_update[OF assms(1), of "(row, col)" t "place_flag t"]
    by (simp add: place_flag_def is_mine_def is_revealed_def)
next
  case (RemoveFlag row col)
  then obtain t where "map_of (tile_grid g) (row, col) = Some t"
    and "g' = g\<lparr>tile_grid := AList.update (row, col) (remove_flag t) (tile_grid g)\<rparr>"
    using assms(2) by (auto simp: apply_action_def get_tile_def split: sum.splits option.splits)
  then show ?thesis
    using mines_hidden_flag_update[OF assms(1), of "(row, col)" t "remove_flag t"]
    by (simp add: remove_flag_def is_mine_def is_revealed_def)
next
  case CheckWin
  then show ?thesis using assms by (simp add: apply_action_def)
next
  case Restart
  then have "set_up_grid (g\<lparr>tile_grid := [], mine_count_grid := []\<rparr>) s = Some (Inr (g', s'))"
    using assms(2) by (simp add: apply_action_def restart_grid_def)
  then show ?thesis by (rule set_up_grid_mines_hidden) simp_all
qed

lemma run_actions_mines_hidden:
  assumes "mines_hidden (fst st)" "run_actions acts st = Some (Inr st')"
  shows "mines_hidden (fst st')"
  using assms
proof (induction acts arbitrary: st)
  case Nil
  then show ?case by simp
next
  case (Cons a acts)
  from Cons.prems(2) obtain st1 where one: "apply_action a st = Some (Inr st1)"
    and rest: "run_actions acts st1 = Some (Inr st')"
    by (auto split: option.splits sum.splits)
  have "mines_hidden (fst st1)"
    using apply_action_mines_hidden[of "fst st" a "snd st" "fst st1" "snd st1"] Cons.prems(1) one
    by simp
  from Cons.IH[OF this rest] show ?case .
qed

text \<open>
  C7. From a freshly constructed grid, after any sequence of \<open>open_tile\<close>, \<open>place_flag\<close>,
  \<open>remove_flag\<close>, \<open>check_win\<close> and \<open>restart_grid\<close> calls that run to their end, no tile
  with a mine is revealed.
\<close>

theorem mines_never_revealed:
  assumes "Grid twister e h w m seed_arg = Some (Inr st0)"
    and "run_actions acts st0 = Some (Inr (g, s))"
    and "map_of (tile_grid g) p = Some t" and "is_mine t"
  shows "\<not> is_revealed t"
proof -
  have "mines_hidden (fst st0)"
    using Grid_mines_hidden[of twister e h w m seed_arg "fst st0" "snd st0"] assms(1) by simp
  from run_actions_mines_hidden[OF this assms(2)] have "mines_hidden g" by simp
  then show ?thesis using assms(3,4) unfolding mines_hidden_def by blast
qed

text \<open>
  An instance: the run that wins the example grid leaves its mine unrevealed.
\<close>

theorem mines_never_revealed_witness:
  "map_of (tile_grid won_grid) (0, 1) = Some \<lparr>mine = True, revealed = False, flagged = True\<rparr>
   \<and> is_mine \<lparr>mine = True, revealed = False, flagged = True\<rparr>
   \<and> \<not> is_revealed \<lparr>mine = True, revealed = False, flagged = True\<rparr>"
proof -
  have a: "map_of (tile_grid won_grid) (0, 1) = Some \<lparr>mine = True, revealed = False, flagged = True\<rparr>"
    by (simp add: won_grid_def grid_positions_def range_py_def upto.simps)
  have b: "is_mine \<lparr>mine = True, revealed = False, flagged = True\<rparr>"
    by (simp add: is_mine_def)
  from mines_never_revealed[OF example_grid_constructed example_run_won a b] a b
  show ?thesis by blast
qed

section \<open>The stored counts\<close>

lemma rotations_are_neighbours:
  "(\<lambda>d. (row + fst d, col + snd d)) ` set ROTATIONS = neighbours (row, col)"
proof
  show "(\<lambda>d. (row + fst d, col + snd d)) ` set ROTATIONS \<subseteq> neighbours (row, col)"
    by (auto simp: ROTATIONS_def neighbours_def)
next
  show "neighbours (row, col) \<subseteq> (\<lambda>d. (row + fst d, col + snd d)) ` set ROTATIONS"
  proof
    fix q assume q: "q \<in> neighbours (row, col)"
    define dr where "dr = fst q - row"
    define dc where "dc = snd q - col"
    have "dr \<in> {-1, 0, 1}" "dc \<in> {-1, 0, 1}" "(dr, dc) \<noteq> (0, 0)"
      using q by (auto simp: neighbours_def dr_def dc_def)
    then have "(dr, dc) \<in> set ROTATIONS"
      by (auto simp: ROTATIONS_def)
    moreover have "q = (row + fst (dr, dc), col + snd (dr, dc))"
      by (simp add: dr_def dc_def)
    ultimately show "q \<in> (\<lambda>d. (row + fst d, col + snd d)) ` set ROTATIONS"
      by (rule rev_image_eqI)
  qed
qed

lemma distinct_rotated: "distinct (map (\<lambda>d. (row + fst d, col + snd d)) ROTATIONS)"
  by (simp add: ROTATIONS_def)

lemma fold_count_filter:
  "fold (\<lambda>d count. (case m (f d) of None \<Rightarrow> count
                     | Some t \<Rightarrow> if is_mine t then count + 1 else count)) ds c
   = c + int (length (filter (\<lambda>q. \<exists>t. m q = Some t \<and> is_mine t) (map f ds)))"
  by (induction ds arbitrary: c) (auto split: option.splits)

lemma find_surrounding_mine_count_card:
  "find_surrounding_mine_count g row col =
     int (card {q \<in> neighbours (row, col). \<exists>t. map_of (tile_grid g) q = Some t \<and> is_mine t})"
proof -
  let ?f = "\<lambda>d. (row + fst d, col + snd d)"
  let ?P = "\<lambda>q. \<exists>t. map_of (tile_grid g) q = Some t \<and> is_mine t"
  have "find_surrounding_mine_count g row col = int (length (filter ?P (map ?f ROTATIONS)))"
    unfolding find_surrounding_mine_count_def
    using fold_count_filter[of "map_of (tile_grid g)" ?f ROTATIONS 0] by simp
  also have "length (filter ?P (map ?f ROTATIONS)) = card ({q. ?P q} \<inter> set (map ?f ROTATIONS))"
    by (rule distinct_length_filter[OF distinct_rotated])
  also have "{q. ?P q} \<inter> set (map ?f ROTATIONS) = {q \<in> neighbours (row, col). ?P q}"
    using rotations_are_neighbours[of row col] by auto
  finally show ?thesis .
qed

lemma dense_key_in_range:
  assumes "dense g" "map_of (tile_grid g) q = Some t"
  shows "0 \<le> fst q \<and> fst q < grid_height g \<and> 0 \<le> snd q \<and> snd q < grid_width g"
proof -
  have "q \<in> fst ` set (tile_grid g)"
    using assms(2) by (metis domI dom_map_of_conv_image_fst)
  then have "q \<in> set (grid_positions (grid_height g) (grid_width g))"
    using assms(1) by (metis dense_def list.set_map)
  then show ?thesis unfolding set_grid_positions by auto
qed

lemma Grid_result:
  assumes "Grid twister e h w m seed_arg = Some (Inr (g, s))"
  shows "grid_height g = h" "grid_width g = w" "mine_count g = m"
    "seed g = (case seed_arg of Some n \<Rightarrow> n | None \<Rightarrow> generate_seed e)"
    "dense g" "mine_total g = nat m"
    "5 \<le> h" "5 \<le> w" "1 \<le> m" "m \<le> h * w"
    "\<And>p t. map_of (tile_grid g) p = Some t \<Longrightarrow>
       map_of (mine_count_grid g) p =
         Some (if is_mine t then 0 else find_surrounding_mine_count g (fst p) (snd p))"
proof -
  from assms obtain g0 where valid: "check_valid_grid_arguments h w m = Inr ()"
    and g0: "g0 = \<lparr>grid_height = h, grid_width = w, mine_count = m, tile_grid = [],
              mine_count_grid = [],
              seed = (case seed_arg of Some n \<Rightarrow> n | None \<Rightarrow> generate_seed e)\<rparr>"
    and run: "set_up_grid g0 (random_seed twister e seed_arg) = Some (Inr (g, s))"
    by (rule Grid_parts)
  have empty: "tile_grid g0 = []" "mine_count_grid g0 = []" by (simp_all add: g0)
  note res = set_up_grid_result[OF run empty]
  show "grid_height g = h" "grid_width g = w" "mine_count g = m"
    "seed g = (case seed_arg of Some n \<Rightarrow> n | None \<Rightarrow> generate_seed e)"
    "mine_total g = nat m"
    using res(1-4,6) by (simp_all add: g0)
  show "dense g" by (rule res(5))
  show "5 \<le> h" "5 \<le> w" "1 \<le> m" "m \<le> h * w"
    using valid by (auto simp: check_valid_grid_arguments_def Let_def split: if_splits)
  show "map_of (mine_count_grid g) p =
         Some (if is_mine t then 0 else find_surrounding_mine_count g (fst p) (snd p))"
    if "map_of (tile_grid g) p = Some t" for p t
    by (rule res(8)[OF that])
qed

text \<open>
  C8. After construction, the count stored for a tile without a mine is the number of
  positions among its eight neighbours (row and column offsets each in \<open>-1, 0, 1\<close>, not
  both zero) that lie inside the grid and have a mine; \<open>get_surrounding_mine_count\<close>
  returns it.
\<close>

theorem stored_count_is_neighbouring_mines:
  assumes "Grid twister e h w m seed_arg = Some (Inr (g, s))"
    and "map_of (tile_grid g) (row, col) = Some t" and "\<not> is_mine t"
  shows "map_of (mine_count_grid g) (row, col) = Some (int (card (mined_neighbours g (row, col))))
    \<and> get_surrounding_mine_count g row col = Inr (int (card (mined_neighbours g (row, col))))"
proof -
  have d: "dense g" by (rule Grid_result(5)[OF assms(1)])
  have "mined_neighbours g (row, col) =
      {q \<in> neighbours (row, col). \<exists>t. map_of (tile_grid g) q = Some t \<and> is_mine t}"
    unfolding mined_neighbours_def using dense_key_in_range[OF d] by blast
  then have "find_surrounding_mine_count g row col = int (card (mined_neighbours g (row, col)))"
    by (simp add: find_surrounding_mine_count_card)
  moreover have "map_of (mine_count_grid g) (row, col) = Some (find_surrounding_mine_count g row col)"
    using Grid_result(11)[OF assms(1,2)] assms(3) by simp
  ultimately show ?thesis by (simp add: get_surrounding_mine_count_def)
qed

text \<open>
  An instance: the tile \<open>(1, 1)\<close> of the example grid has the count 1 and one mined
  neighbour.
\<close>

theorem stored_count_is_neighbouring_mines_witness:
  "map_of (mine_count_grid example_grid) (1, 1) = Some 1
   \<and> card (mined_neighbours example_grid (1, 1)) = 1"
proof -
  have a: "map_of (tile_grid example_grid) (1, 1) = Some Tile"
    by (simp add: example_grid_def grid_positions_def range_py_def upto.simps Tile_def)
  have b: "\<not> is_mine Tile" by (simp add: Tile_def is_mine_def)
  have c: "map_of (mine_count_grid example_grid) (1, 1) = Some 1"
    by (simp add: example_grid_def grid_positions_def range_py_def upto.simps)
  from stored_count_is_neighbouring_mines[OF example_grid_constructed a b] c
  show ?thesis by simp
qed

section \<open>Construction\<close>

lemma drawn_position_sweep:
  "drawn_position h w (sweep_rng (nat w)) k = (int (k div nat w mod nat h), int (k mod nat w mod nat w))"
  by (simp add: drawn_position_def sweep_rng_def)

lemma fair_sweep_rng:
  assumes "1 \<le> h" "1 \<le> w"
  shows "fair_rng h w (sweep_rng (nat w))"
  unfolding fair_rng_def
proof (intro ballI allI)
  fix p n assume "p \<in> set (grid_positions h w)"
  then obtain r c where p: "p = (r, c)" and r: "0 \<le> r" "r < h" and c: "0 \<le> c" "c < w"
    by (auto simp: set_grid_positions)
  define H where "H = nat h"
  define W where "W = nat w"
  define k where "k = (nat r + n * H) * W + nat c"
  have Hpos: "0 < H" and Wpos: "0 < W" using assms by (simp_all add: H_def W_def)
  have rl: "nat r < H" and cl: "nat c < W" using r c by (simp_all add: H_def W_def)
  have "k div W = nat r + n * H" using cl by (simp add: k_def)
  then have a: "k div W mod H = nat r" using rl by simp
  have b: "k mod W = nat c" using cl by (simp add: k_def)
  have "n \<le> H * (W * n)" using Hpos Wpos by (cases H; cases W) simp_all
  moreover have "k = nat r * W + H * (W * n) + nat c" by (simp add: k_def algebra_simps)
  ultimately have "n \<le> k" by linarith
  then have "n \<le> k" .
  moreover have "drawn_position h w (sweep_rng (nat w)) k = p"
    using a b r c unfolding H_def W_def by (simp add: drawn_position_sweep p)
  ultimately show "\<exists>k\<ge>n. drawn_position h w (sweep_rng (nat w)) k = p" by blast
qed

lemma mine_positions_card:
  assumes "distinct (map fst (tile_grid g))"
  shows "card {p. \<exists>t. map_of (tile_grid g) p = Some t \<and> is_mine t} = mine_total g"
proof -
  let ?mined = "filter (\<lambda>kv. is_mine (snd kv)) (tile_grid g)"
  have "{p. \<exists>t. map_of (tile_grid g) p = Some t \<and> is_mine t} = set (map fst ?mined)"
    using assms by (force simp: image_iff)
  moreover have "distinct (map fst ?mined)"
    using assms by (rule distinct_map_filter)
  ultimately show ?thesis
    by (simp add: distinct_card mine_total_def del: set_map)
qed

lemma Grid_no_error:
  assumes "Grid twister e h w m seed_arg = Some (Inl err)"
  shows "h < 5 \<or> w < 5 \<or> m < 1 \<or> m > h * w"
proof (rule ccontr)
  assume "\<not> ?thesis"
  then have valid: "5 \<le> h" "5 \<le> w" "1 \<le> m" "m \<le> h * w" by simp_all
  then have "check_valid_grid_arguments h w m = Inr ()"
    by (simp add: check_valid_grid_arguments_def)
  then have "set_up_grid \<lparr>grid_height = h, grid_width = w, mine_count = m, tile_grid = [],
               mine_count_grid = [],
               seed = (case seed_arg of Some n \<Rightarrow> n | None \<Rightarrow> generate_seed e)\<rparr>
             (random_seed twister e seed_arg) = Some (Inl err)"
    using assms by (simp add: Grid_def)
  then show False
    by (rule set_up_grid_no_error) (use valid in simp_all)
qed

lemma Grid_returns:
  assumes "5 \<le> h" "5 \<le> w" "1 \<le> m" "m \<le> h * w"
    and "fair_rng h w (random_seed twister e seed_arg)"
  shows "\<exists>g s. Grid twister e h w m seed_arg = Some (Inr (g, s))"
proof -
  have "check_valid_grid_arguments h w m = Inr ()"
    using assms(1-4) by (simp add: check_valid_grid_arguments_def)
  moreover have "\<exists>g s. set_up_grid \<lparr>grid_height = h, grid_width = w, mine_count = m, tile_grid = [],
               mine_count_grid = [],
               seed = (case seed_arg of Some n \<Rightarrow> n | None \<Rightarrow> generate_seed e)\<rparr>
             (random_seed twister e seed_arg) = Some (Inr (g, s))"
    by (rule set_up_grid_returns) (use assms in simp_all)
  ultimately show ?thesis by (simp add: Grid_def)
qed

text \<open>
  C9. For valid arguments, a constructed grid has exactly \<open>mine_count\<close> tiles with a mine
  (as entries of the dictionary and as distinct positions), and both dictionaries have
  exactly one entry for every coordinate of the grid and no other key. Mine placement
  returns, with that grid, whenever the random generator is fair to the grid, that is,
  each cell keeps being drawn: the rejection loop has no bound of its own.
\<close>

theorem construction_places_mine_count_mines:
  assumes "5 \<le> h" "5 \<le> w" "1 \<le> m" "m \<le> h * w"
  shows "(Grid twister e h w m seed_arg = Some (Inr (g, s)) \<longrightarrow>
            mine_total g = nat m
          \<and> card {p. \<exists>t. map_of (tile_grid g) p = Some t \<and> is_mine t} = nat m
          \<and> distinct (map fst (tile_grid g))
          \<and> set (map fst (tile_grid g)) = {(r, c). 0 \<le> r \<and> r < h \<and> 0 \<le> c \<and> c < w}
          \<and> distinct (map fst (mine_count_grid g))
          \<and> set (map fst (mine_count_grid g)) = {(r, c). 0 \<le> r \<and> r < h \<and> 0 \<le> c \<and> c < w})
       \<and> (fair_rng h w (random_seed twister e seed_arg) \<longrightarrow>
            (\<exists>g' s'. Grid twister e h w m seed_arg = Some (Inr (g', s'))))"
proof (intro conjI impI)
  assume run: "Grid twister e h w m seed_arg = Some (Inr (g, s))"
  note res = Grid_result[OF run]
  have keys: "map fst (tile_grid g) = grid_positions h w"
    "map fst (mine_count_grid g) = grid_positions h w"
    using res(5) by (simp_all add: dense_def res(1,2))
  show "mine_total g = nat m" by (rule res(6))
  show "distinct (map fst (tile_grid g))" "distinct (map fst (mine_count_grid g))"
    by (simp_all only: keys distinct_grid_positions)
  then show "card {p. \<exists>t. map_of (tile_grid g) p = Some t \<and> is_mine t} = nat m"
    by (simp only: mine_positions_card res(6))
  show "set (map fst (tile_grid g)) = {(r, c). 0 \<le> r \<and> r < h \<and> 0 \<le> c \<and> c < w}"
    "set (map fst (mine_count_grid g)) = {(r, c). 0 \<le> r \<and> r < h \<and> 0 \<le> c \<and> c < w}"
    by (simp_all only: keys set_grid_positions)
next
  assume "fair_rng h w (random_seed twister e seed_arg)"
  then show "\<exists>g' s'. Grid twister e h w m seed_arg = Some (Inr (g', s'))"
    by (rule Grid_returns[OF assms])
qed

text \<open>
  An instance: with the sweeping generator, \<open>Grid(5, 5, 25, seed=0)\<close> returns a grid of 25
  mines on the 25 coordinates.
\<close>

theorem construction_places_mine_count_mines_witness:
  "\<exists>g s. Grid (\<lambda>n. sweep_rng 5) no_entropy 5 5 25 (Some 0) = Some (Inr (g, s))
     \<and> mine_total g = 25
     \<and> card {p. \<exists>t. map_of (tile_grid g) p = Some t \<and> is_mine t} = 25
     \<and> distinct (map fst (tile_grid g))
     \<and> set (map fst (tile_grid g)) = {(r, c). 0 \<le> r \<and> r < 5 \<and> 0 \<le> c \<and> c < 5}"
proof -
  have fair: "fair_rng 5 5 (random_seed (\<lambda>n. sweep_rng 5) no_entropy (Some 0))"
    using fair_sweep_rng[of 5 5] by (simp add: random_seed_def)
  have valid: "(5::int) \<le> 5" "(1::int) \<le> 25" "(25::int) \<le> 5 * 5" by simp_all
  note inst = construction_places_mine_count_mines[OF valid(1) valid(1) valid(2) valid(3),
      of "\<lambda>n. sweep_rng 5" no_entropy "Some 0"]
  from inst fair obtain g s where
    run: "Grid (\<lambda>n. sweep_rng 5) no_entropy 5 5 25 (Some 0) = Some (Inr (g, s))"
    by blast
  from inst[of g s] run show ?thesis by auto
qed

section \<open>Validation of the arguments\<close>

lemma check_valid_grid_arguments_cases:
  "check_valid_grid_arguments h w m =
     (if h < 5 \<or> w < 5 then Inl (Exception ''Invalid grid size - too small'')
      else if m < 1 then Inl (Exception ''Invalid grid mine count - at least 1 mine required'')
      else if m > h * w
        then Inl (Exception ''Invalid grid mine count - can't have more tiles than grid size!'')
      else Inr ())"
  by (simp add: check_valid_grid_arguments_def)

lemma Grid_invalid:
  "check_valid_grid_arguments h w m = Inl err \<Longrightarrow> Grid twister e h w m seed_arg = Some (Inl err)"
  by (simp add: Grid_def)

lemma all_mines_when_full:
  assumes "mine_total g = length (tile_grid g)"
  shows "\<forall>kv \<in> set (tile_grid g). is_mine (snd kv)"
proof -
  show ?thesis
  proof (rule ccontr)
    assume "\<not> ?thesis"
    then obtain kv where "kv \<in> set (tile_grid g)" "\<not> is_mine (snd kv)" by blast
    then have "length (filter (\<lambda>kv. is_mine (snd kv)) (tile_grid g)) < length (tile_grid g)"
      by (rule length_filter_less)
    then show False using assms by (simp add: mine_total_def)
  qed
qed

text \<open>
  C10. Construction raises exactly when the height or the width is below 5, or the mine
  count is below 1 or above the area; the exception names the first violated constraint
  in the order of the check, which runs before anything else, so it carries no grid.
  \<open>Grid(4, 5, 1)\<close> and \<open>Grid(5, 5, 26)\<close> raise; \<open>Grid(5, 5, 25)\<close> passes the check, never
  raises, and returns a grid of 25 mines for every generator fair to the grid.
\<close>

theorem construction_fails_exactly_on_invalid_arguments:
  "((\<exists>err. Grid twister e h w m seed_arg = Some (Inl err))
       \<longleftrightarrow> (h < 5 \<or> w < 5 \<or> m < 1 \<or> m > h * w))
   \<and> (h < 5 \<or> w < 5 \<longrightarrow>
         Grid twister e h w m seed_arg = Some (Inl (Exception ''Invalid grid size - too small'')))
   \<and> (5 \<le> h \<and> 5 \<le> w \<and> m < 1 \<longrightarrow>
         Grid twister e h w m seed_arg
           = Some (Inl (Exception ''Invalid grid mine count - at least 1 mine required'')))
   \<and> (5 \<le> h \<and> 5 \<le> w \<and> 1 \<le> m \<and> m > h * w \<longrightarrow>
         Grid twister e h w m seed_arg
           = Some (Inl (Exception ''Invalid grid mine count - can't have more tiles than grid size!'')))
   \<and> Grid twister e 4 5 1 seed_arg = Some (Inl (Exception ''Invalid grid size - too small''))
   \<and> Grid twister e 5 5 26 seed_arg
        = Some (Inl (Exception ''Invalid grid mine count - can't have more tiles than grid size!''))
   \<and> check_valid_grid_arguments 5 5 25 = Inr ()
   \<and> (\<forall>err. Grid twister e 5 5 25 seed_arg \<noteq> Some (Inl err))
   \<and> (fair_rng 5 5 (random_seed twister e seed_arg) \<longrightarrow>
        (\<exists>g s. Grid twister e 5 5 25 seed_arg = Some (Inr (g, s))
            \<and> length (tile_grid g) = 25 \<and> (\<forall>kv \<in> set (tile_grid g). is_mine (snd kv))))"
proof (intro conjI impI allI)
  show "(\<exists>err. Grid twister e h w m seed_arg = Some (Inl err))
       \<longleftrightarrow> (h < 5 \<or> w < 5 \<or> m < 1 \<or> m > h * w)"
  proof
    assume "\<exists>err. Grid twister e h w m seed_arg = Some (Inl err)"
    then show "h < 5 \<or> w < 5 \<or> m < 1 \<or> m > h * w" using Grid_no_error by blast
  next
    assume "h < 5 \<or> w < 5 \<or> m < 1 \<or> m > h * w"
    then have "\<exists>err. check_valid_grid_arguments h w m = Inl err"
      by (auto simp: check_valid_grid_arguments_cases)
    then show "\<exists>err. Grid twister e h w m seed_arg = Some (Inl err)"
      using Grid_invalid by blast
  qed
next
  assume "h < 5 \<or> w < 5"
  then show "Grid twister e h w m seed_arg = Some (Inl (Exception ''Invalid grid size - too small''))"
    by (intro Grid_invalid) (simp add: check_valid_grid_arguments_cases)
next
  assume "5 \<le> h \<and> 5 \<le> w \<and> m < 1"
  then show "Grid twister e h w m seed_arg
           = Some (Inl (Exception ''Invalid grid mine count - at least 1 mine required''))"
    by (intro Grid_invalid) (simp add: check_valid_grid_arguments_cases)
next
  assume "5 \<le> h \<and> 5 \<le> w \<and> 1 \<le> m \<and> m > h * w"
  then show "Grid twister e h w m seed_arg
           = Some (Inl (Exception ''Invalid grid mine count - can't have more tiles than grid size!''))"
    by (intro Grid_invalid) (simp add: check_valid_grid_arguments_cases)
next
  show "Grid twister e 4 5 1 seed_arg = Some (Inl (Exception ''Invalid grid size - too small''))"
    by (intro Grid_invalid) (simp add: check_valid_grid_arguments_cases)
next
  show "Grid twister e 5 5 26 seed_arg
        = Some (Inl (Exception ''Invalid grid mine count - can't have more tiles than grid size!''))"
    by (intro Grid_invalid) (simp add: check_valid_grid_arguments_cases)
next
  show "check_valid_grid_arguments 5 5 25 = Inr ()"
    by (simp add: check_valid_grid_arguments_cases)
next
  fix err
  show "Grid twister e 5 5 25 seed_arg \<noteq> Some (Inl err)"
    using Grid_no_error[of twister e 5 5 25 seed_arg err] by auto
next
  assume fair: "fair_rng 5 5 (random_seed twister e seed_arg)"
  have "\<exists>g s. Grid twister e 5 5 25 seed_arg = Some (Inr (g, s))"
    by (rule Grid_returns[OF _ _ _ _ fair]) simp_all
  then obtain g s where run: "Grid twister e 5 5 25 seed_arg = Some (Inr (g, s))" by blast
  note res = Grid_result[OF run]
  have "map fst (tile_grid g) = grid_positions 5 5"
    using res(5) by (simp add: dense_def res(1,2))
  then have "length (map fst (tile_grid g)) = length (grid_positions 5 5)" by simp
  then have len: "length (tile_grid g) = 25"
    by (simp add: length_grid_positions)
  then have "\<forall>kv \<in> set (tile_grid g). is_mine (snd kv)"
    using all_mines_when_full[of g] res(6) by simp
  then show "\<exists>g s. Grid twister e 5 5 25 seed_arg = Some (Inr (g, s))
            \<and> length (tile_grid g) = 25 \<and> (\<forall>kv \<in> set (tile_grid g). is_mine (snd kv))"
    using run len by blast
qed

text \<open>
  Instances: one construction for each of the three exceptions, and the full grid.
\<close>

theorem construction_fails_exactly_on_invalid_arguments_witness:
  "Grid (\<lambda>n. sweep_rng 5) no_entropy 3 7 1 (Some 0)
      = Some (Inl (Exception ''Invalid grid size - too small''))
   \<and> Grid (\<lambda>n. sweep_rng 5) no_entropy 5 5 0 (Some 0)
      = Some (Inl (Exception ''Invalid grid mine count - at least 1 mine required''))
   \<and> Grid (\<lambda>n. sweep_rng 5) no_entropy 5 6 31 (Some 0)
      = Some (Inl (Exception ''Invalid grid mine count - can't have more tiles than grid size!''))
   \<and> (\<exists>g s. Grid (\<lambda>n. sweep_rng 5) no_entropy 5 5 25 (Some 0) = Some (Inr (g, s))
          \<and> length (tile_grid g) = 25 \<and> (\<forall>kv \<in> set (tile_grid g). is_mine (snd kv)))"
proof (intro conjI)
  have small: "(3::int) < 5 \<or> (7::int) < 5" by simp
  have none: "(5::int) \<le> 5 \<and> (5::int) \<le> 5 \<and> (0::int) < 1" by simp
  have many: "(5::int) \<le> 5 \<and> (5::int) \<le> 6 \<and> (1::int) \<le> 31 \<and> (31::int) > 5 * 6" by simp
  have fair: "fair_rng 5 5 (random_seed (\<lambda>n. sweep_rng 5) no_entropy (Some 0))"
    using fair_sweep_rng[of 5 5] by (simp add: random_seed_def)
  show "Grid (\<lambda>n. sweep_rng 5) no_entropy 3 7 1 (Some 0)
      = Some (Inl (Exception ''Invalid grid size - too small''))"
    using construction_fails_exactly_on_invalid_arguments
      [of "\<lambda>n. sweep_rng 5" no_entropy 3 7 1 "Some 0", THEN conjunct2, THEN conjunct1] small
    by (rule mp)
  show "Grid (\<lambda>n. sweep_rng 5) no_entropy 5 5 0 (Some 0)
      = Some (Inl (Exception ''Invalid grid mine count - at least 1 mine required''))"
    using construction_fails_exactly_on_invalid_arguments
      [of "\<lambda>n. sweep_rng 5" no_entropy 5 5 0 "Some 0", THEN conjunct2, THEN conjunct2,
        THEN conjunct1] none
    by (rule mp)
  show "Grid (\<lambda>n. sweep_rng 5) no_entropy 5 6 31 (Some 0)
      = Some (Inl (Exception ''Invalid grid mine count - can't have more tiles than grid size!''))"
    using construction_fails_exactly_on_invalid_arguments
      [of "\<lambda>n. sweep_rng 5" no_entropy 5 6 31 "Some 0", THEN conjunct2, THEN conjunct2,
        THEN conjunct2, THEN conjunct1] many
    by (rule mp)
  show "\<exists>g s. Grid (\<lambda>n. sweep_rng 5) no_entropy 5 5 25 (Some 0) = Some (Inr (g, s))
          \<and> length (tile_grid g) = 25 \<and> (\<forall>kv \<in> set (tile_grid g). is_mine (snd kv))"
    using construction_fails_exactly_on_invalid_arguments
      [of "\<lambda>n. sweep_rng 5" no_entropy 5 5 25 "Some 0", THEN conjunct2, THEN conjunct2,
        THEN conjunct2, THEN conjunct2, THEN conjunct2, THEN conjunct2, THEN conjunct2,
        THEN conjunct2] fair
    by (rule mp)
qed

section \<open>The recorded seed\<close>

lemma Grid_explicit_seed_reproduces:
  assumes "Grid twister e h w m (Some n) = Some (Inr (g, s))"
  shows "seed g = n \<and> Grid twister e' h w m (Some (seed g)) = Some (Inr (g, s))"
proof -
  have "seed g = n" using Grid_result(4)[OF assms] by simp
  moreover have "Grid twister e' h w m (Some n) = Grid twister e h w m (Some n)"
    by (simp add: Grid_def random_seed_def split: sum.splits)
  ultimately show ?thesis using assms by simp
qed

lemma Grid_omitted_seed_rng:
  "Grid twister e h w m None =
     (case check_valid_grid_arguments h w m of
        Inl err \<Rightarrow> Some (Inl err)
      | Inr u \<Rightarrow>
          set_up_grid \<lparr>grid_height = h, grid_width = w, mine_count = m, tile_grid = [],
                       mine_count_grid = [], seed = generate_seed e\<rparr> (system_rng e))"
  by (simp add: Grid_def random_seed_def split: sum.splits)

lemma generate_seed_example: "generate_seed example_entropy = 4"
  by (simp add: generate_seed_def from_bytes_big_def example_entropy_def)

text \<open>
  C2, at an input where the code departs from it. \<open>Grid(5, 5, 1)\<close> without a seed
  records the seed 4 that \<open>generate_seed\<close> returns, and places its mine at \<open>(0, 1)\<close> with
  the generator that \<open>random.seed(None)\<close> installed; \<open>Grid(5, 5, 1, seed=4)\<close>, given
  that recorded seed, places its mine at \<open>(4, 0)\<close>.
\<close>

theorem recorded_seed_does_not_reproduce:
  "map_option (map_sum id (\<lambda>r. (seed (fst r), mine_positions (fst r))))
      (Grid counting_twister example_entropy 5 5 1 None) = Some (Inr (4, [(0, 1)]))
   \<and> map_option (map_sum id (\<lambda>r. (seed (fst r), mine_positions (fst r))))
      (Grid counting_twister example_entropy 5 5 1 (Some 4)) = Some (Inr (4, [(4, 0)]))"
  by (simp add: setup_eval tile_eval counting_twister_def example_entropy_def
      generate_seed_example[unfolded example_entropy_def] mine_positions_def)

section \<open>The clicked indicator\<close>

text \<open>
  C1, at an input where the code departs from it. In the grid with one mine at \<open>(0, 1)\<close>
  the corner \<open>(0, 0)\<close> is an indicator, and so are its neighbours \<open>(1, 0)\<close> and \<open>(1, 1)\<close>;
  no tile is revealed. \<open>open_tile\<close> on the corner reveals all three and returns them:
  the clicked indicator is expanded, and its two neighbours are revealed although the
  call reveals no empty tile at all.
\<close>

theorem open_tile_expands_clicked_indicator:
  "map (is_tile_a_indicator example_grid) [(0, 0), (1, 0), (1, 1)] = [Some True, Some True, Some True]
   \<and> map (is_tile_empty example_grid) [(0, 0), (1, 0), (1, 1)] = [Some False, Some False, Some False]
   \<and> revealed_positions example_grid = []
   \<and> map_sum id (\<lambda>r. (revealed_positions (fst r), snd r)) (open_tile example_grid 0 0)
       = Inr ([(0, 0), (1, 0), (1, 1)], [(0, 0), (1, 0), (1, 1)])"
  by (simp add: open_eval tile_eval example_grid_def revealed_positions_def)

section \<open>Where the wall holds\<close>

lemma rotate_algorithm_preserves_rot:
  assumes step: "\<And>d g tc tnc. d \<in> set ROTATIONS \<Longrightarrow> P (g, tc, tnc) \<Longrightarrow> cur \<in> set tc
                   \<Longrightarrow> P (rotate_step cur d (g, tc, tnc))"
    and init: "P st" and cur: "cur \<in> set (fst (snd st))"
  shows "P (rotate_algorithm cur st)"
proof -
  have "P (fold (rotate_step cur) ds st)" if "set ds \<subseteq> set ROTATIONS" for ds
    using init cur that
  proof (induction ds arbitrary: st)
    case Nil then show ?case by simp
  next
    case (Cons d ds)
    obtain g tc tnc where st: "st = (g, tc, tnc)" by (cases st)
    obtain g' tc' tnc' where st': "rotate_step cur d (g, tc, tnc) = (g', tc', tnc')"
      by (cases "rotate_step cur d (g, tc, tnc)")
    have "P (rotate_step cur d st)" using step[of d g tc tnc] Cons.prems by (simp add: st)
    moreover have "cur \<in> set (fst (snd (rotate_step cur d st)))"
      using rotate_step_to_check_mono[OF st'] Cons.prems(2) by (auto simp: st st')
    moreover have "set ds \<subseteq> set ROTATIONS" using Cons.prems(3) by simp
    ultimately show ?case using Cons.IH[of "rotate_step cur d st"] by simp
  qed
  then show ?thesis by (simp add: rotate_algorithm_def)
qed

lemma open_loop_preserves_rot:
  assumes step: "\<And>cur d g tc tnc. d \<in> set ROTATIONS \<Longrightarrow> P (g, tc, tnc) \<Longrightarrow> cur \<in> set tc
                   \<Longrightarrow> P (rotate_step cur d (g, tc, tnc))"
    and init: "P st"
  shows "P (open_loop i st)"
  using init
proof (induction i st rule: open_loop.induct)
  case (1 i g to_check to_not_check)
  show ?case
  proof (cases "i < length to_check")
    case True
    have "P (rotate_algorithm (to_check ! i) (g, to_check, to_not_check))"
      by (rule rotate_algorithm_preserves_rot[where cur = "to_check ! i" and P = P])
        (use step "1.prems" True in simp_all)
    then show ?thesis using "1.IH"[OF True] True by (simp add: open_loop.simps)
  next
    case False
    then show ?thesis using "1.prems" by (simp add: open_loop.simps)
  qed
qed

lemma grid_opened_counts:
  assumes "grid_opened g g'"
  shows "mine_count_grid g' = mine_count_grid g"
proof -
  have "g' = g\<lparr>tile_grid := tile_grid g'\<rparr>"
    using assms unfolding grid_opened_def by (rule conjunct1)
  then have "mine_count_grid g' = mine_count_grid (g\<lparr>tile_grid := tile_grid g'\<rparr>)"
    by (rule arg_cong)
  also have "\<dots> = mine_count_grid g" by simp
  finally show ?thesis .
qed

lemma grid_opened_is_tile_empty:
  assumes "grid_opened g g'"
  shows "is_tile_empty g' q = is_tile_empty g q"
proof -
  have c: "mine_count_grid g' = mine_count_grid g"
    by (rule grid_opened_counts[OF assms])
  have "rel_option tile_opened (map_of (tile_grid g) q) (map_of (tile_grid g') q)"
    by (rule grid_opened_tile[OF assms])
  then show ?thesis
    unfolding is_tile_empty_def is_tile_a_indicator_def c
    by (cases "map_of (tile_grid g) q"; cases "map_of (tile_grid g') q")
      (simp_all add: tile_opened_def)
qed

lemma reveal_at_is_tile_empty:
  "map_of (tile_grid g) p = Some t \<Longrightarrow> is_tile_empty (reveal_at p t g) q = is_tile_empty g q"
  unfolding is_tile_empty_def is_tile_a_indicator_def reveal_at_def
  by (auto simp: update_conv' mark_as_revealed_def is_mine_def split: option.splits)

lemma wall_invI:
  assumes "grid_opened g1 g"
    and "\<And>q. q \<in> set tc \<Longrightarrow> q = clicked \<or> is_tile_empty g1 q = Some True"
    and "\<And>q. q \<in> set tc \<union> set tnc \<Longrightarrow> q = clicked \<or> (\<exists>e \<in> set tc. next_to e q)"
    and "\<And>q t t1. map_of (tile_grid g) q = Some t \<Longrightarrow> is_revealed t \<Longrightarrow>
            map_of (tile_grid g1) q = Some t1 \<Longrightarrow> \<not> is_revealed t1 \<Longrightarrow> q \<in> set tc \<union> set tnc"
  shows "wall_inv clicked g1 (g, tc, tnc)"
  unfolding wall_inv_def prod.case using assms by blast

lemma wall_invD:
  assumes "wall_inv clicked g1 (g, tc, tnc)"
  shows "grid_opened g1 g"
    and "\<And>q. q \<in> set tc \<Longrightarrow> q = clicked \<or> is_tile_empty g1 q = Some True"
    and "\<And>q. q \<in> set tc \<union> set tnc \<Longrightarrow> q = clicked \<or> (\<exists>e \<in> set tc. next_to e q)"
    and "\<And>q t t1. map_of (tile_grid g) q = Some t \<Longrightarrow> is_revealed t \<Longrightarrow>
            map_of (tile_grid g1) q = Some t1 \<Longrightarrow> \<not> is_revealed t1 \<Longrightarrow> q \<in> set tc \<union> set tnc"
  using assms unfolding wall_inv_def prod.case by blast+

lemma wall_inv_reveal:
  assumes d: "d \<in> set ROTATIONS" and inv: "wall_inv clicked g1 (g, tc, tnc)"
    and cur: "cur \<in> set tc"
    and t: "map_of (tile_grid g) (fst cur + fst d, snd cur + snd d) = Some t" "\<not> flagged t"
    and lists: "set tc \<subseteq> set tc'" "set tnc \<subseteq> set tnc'"
      "(fst cur + fst d, snd cur + snd d) \<in> set tc' \<union> set tnc'"
      "set tc' \<subseteq> insert (fst cur + fst d, snd cur + snd d) (set tc)"
      "set tnc' \<subseteq> insert (fst cur + fst d, snd cur + snd d) (set tnc)"
    and new_empty: "\<And>q. q \<in> set tc' \<Longrightarrow> q \<notin> set tc \<Longrightarrow> is_tile_empty g (fst cur + fst d, snd cur + snd d) = Some True"
  shows "wall_inv clicked g1 (reveal_at (fst cur + fst d, snd cur + snd d) t g, tc', tnc')"
proof (rule wall_invI)
  let ?p = "(fst cur + fst d, snd cur + snd d)"
  note D = wall_invD[OF inv]
  show "grid_opened g1 (reveal_at ?p t g)"
    by (rule grid_opened_trans[OF D(1) grid_opened_reveal_at]) (simp_all add: t is_flagged_def)
  show "q = clicked \<or> is_tile_empty g1 q = Some True" if q: "q \<in> set tc'" for q
  proof (cases "q \<in> set tc")
    case True
    then show ?thesis by (rule D(2))
  next
    case False
    then have "q = ?p" using q lists(4) by blast
    moreover have "is_tile_empty g ?p = Some True" by (rule new_empty[OF q False])
    ultimately show ?thesis using grid_opened_is_tile_empty[OF D(1)] by simp
  qed
  show "q = clicked \<or> (\<exists>e \<in> set tc'. next_to e q)" if q: "q \<in> set tc' \<union> set tnc'" for q
  proof (cases "q \<in> set tc \<union> set tnc")
    case True
    then have "q = clicked \<or> (\<exists>e \<in> set tc. next_to e q)" by (rule D(3))
    then show ?thesis using lists(1) by blast
  next
    case False
    then have "q = ?p" using q lists(4,5) by blast
    moreover have "next_to cur ?p" using d unfolding next_to_def by blast
    ultimately show ?thesis using cur lists(1) by blast
  qed
  show "q \<in> set tc' \<union> set tnc'"
    if a: "map_of (tile_grid (reveal_at ?p t g)) q = Some t'" "is_revealed t'"
      "map_of (tile_grid g1) q = Some t1" "\<not> is_revealed t1" for q t' t1
  proof (cases "q = ?p")
    case True
    then show ?thesis using lists(3) by simp
  next
    case False
    then have "map_of (tile_grid g) q = Some t'" using a(1) by (simp add: reveal_at_other)
    then have "q \<in> set tc \<union> set tnc" using a(2,3,4) by (rule D(4))
    then show ?thesis using lists(1,2) by blast
  qed
qed

lemma wall_inv_step:
  assumes d: "d \<in> set ROTATIONS" and inv: "wall_inv clicked g1 (g, tc, tnc)"
    and cur: "cur \<in> set tc"
  shows "wall_inv clicked g1 (rotate_step cur d (g, tc, tnc))"
proof -
  have "rotate_step cur d (g, tc, tnc) = rotate_step cur d (g, tc, tnc)" ..
  then show ?thesis
  proof (cases rule: rotate_step_cases)
    case skip
    then show ?thesis using inv by simp
  next
    case (empty_tile t)
    show ?thesis
      unfolding empty_tile(6)
      by (rule wall_inv_reveal[OF d inv cur empty_tile(1,3)]) (simp_all add: empty_tile(4) subset_insertI2)
  next
    case (indicator t)
    show ?thesis
      unfolding indicator(6)
      by (rule wall_inv_reveal[OF d inv cur indicator(1,3)]) (simp_all add: subset_insertI2)
  qed
qed

text \<open>
  Apart from the clicked tile, the wall holds: a tile that one call of \<open>open_tile\<close>
  reveals is the clicked tile, or lies next to a position of the returned list that is
  the clicked tile or an empty tile. No indicator other than the clicked tile is a source
  of the expansion.
\<close>

lemma open_tile_reveals_next_to_expanded:
  assumes run: "open_tile g row col = Inr (g', opened)"
    and before: "map_of (tile_grid g) q = Some t" "\<not> is_revealed t"
    and after: "map_of (tile_grid g') q = Some t'" "is_revealed t'"
  shows "q = (row, col) \<or>
    (\<exists>e \<in> set opened. next_to e q \<and> (e = (row, col) \<or> is_tile_empty g e = Some True))"
  using run
proof (cases rule: open_tile_effect)
  case (1 c)
  show ?thesis
  proof (cases "is_mine c \<or> is_revealed c")
    case True
    then have "g' = g" using 1(2) by simp
    then show ?thesis using before after by simp
  next
    case False
    let ?g1 = "reveal_at (row, col) c g"
    from False obtain tc tnc where
      loop: "open_loop 0 (?g1, [(row, col)], []) = (g', tc, tnc)" and opened: "opened = tc @ tnc"
      using 1(3) by blast
    have init: "wall_inv (row, col) ?g1 (?g1, [(row, col)], [])"
      by (rule wall_invI) (simp_all add: grid_opened_refl)
    have "wall_inv (row, col) ?g1 (open_loop 0 (?g1, [(row, col)], []))"
      by (rule open_loop_preserves_rot[where P = "wall_inv (row, col) ?g1"])
        (simp_all add: wall_inv_step init)
    then have inv: "wall_inv (row, col) ?g1 (g', tc, tnc)" by (simp add: loop)
    note D = wall_invD[OF inv]
    show ?thesis
    proof (cases "q = (row, col)")
      case True
      then show ?thesis by simp
    next
      case other: False
      have "map_of (tile_grid ?g1) q = Some t" using before(1) other by (simp add: reveal_at_other)
      with after have "q \<in> set tc \<union> set tnc" using before(2) by (rule D(4))
      then have "q = (row, col) \<or> (\<exists>e \<in> set tc. next_to e q)" by (rule D(3))
      then obtain e where e: "e \<in> set tc" "next_to e q" using other by blast
      have "e = (row, col) \<or> is_tile_empty ?g1 e = Some True" using e(1) by (rule D(2))
      then have "e = (row, col) \<or> is_tile_empty g e = Some True"
        by (simp add: reveal_at_is_tile_empty[OF 1(1)])
      then show ?thesis using e opened by auto
    qed
  qed
qed

end
